theory Spec2Isabelle
  imports Complex_Main
begin

section \<open>Data model\<close>

text \<open>
  The values a numeric field of a JavaScript object can hold in the code under study:
  a finite number, \<open>Number.NEGATIVE_INFINITY\<close> (the seed of the maximum in
  \<open>nearestGroundElevation\<close>), \<open>NaN\<close> (what \<open>Math.max\<close> returns on an argument that is not
  a number) and \<open>undefined\<close> (a property that an object literal does not set). A finite
  number is a real that stands for a double. The code compares such numbers and takes
  their maximum, which is exact, and in one place, the fall distance of
  \<open>nearestGroundElevation\<close>, it subtracts two of them, which rounds.
\<close>

datatype jsnum = Num real | NegInfinity | NaN | Undefined

text \<open>
  The rounding of a real result to a double, as IEEE 754 prescribes for binary64: to the
  nearest number with a significand of 53 bits (of fewer bits below \<open>2 ^ - 1022\<close>), a tie
  going to the even significand. \<open>ilog2\<close> is the position of the leading bit of a natural
  number, \<open>binaryExponent\<close> that of a positive real. A result that rounds to \<open>2 ^ 1024\<close> or
  beyond is an infinity in JavaScript; the real \<open>2 ^ 1024\<close>, which is greater than every
  double, stands for it here, with its sign: the fall distances are only compared, by a
  comparator \<open>a.dist - b.dist\<close> that \<open>Array.prototype.sort\<close>, a stable sort, reads by its
  sign, a \<open>NaN\<close> (two infinities of one sign) counting as zero.
\<close>

fun ilog2 :: "nat \<Rightarrow> nat" where
  "ilog2 n = (if n < 2 then 0 else Suc (ilog2 (n div 2)))"

declare ilog2.simps [simp del]

definition binaryExponent :: "real \<Rightarrow> int" where
  "binaryExponent a =
     (if 1 \<le> a then int (ilog2 (nat \<lfloor>a\<rfloor>)) else - int (Suc (ilog2 (nat (\<lceil>1 / a\<rceil> - 1)))))"

definition roundHalfEven :: "real \<Rightarrow> int" where
  "roundHalfEven q =
     (let f = \<lfloor>q\<rfloor>; d = q - of_int f
      in if d < 1/2 then f else if 1/2 < d then f + 1 else if even f then f else f + 1)"

definition toDouble :: "real \<Rightarrow> real" where
  "toDouble x =
     (if x = 0 then 0
      else let e = max (binaryExponent \<bar>x\<bar>) (- 1022);
               ulp = (if 52 \<le> e then 2 ^ nat (e - 52) else 1 / 2 ^ nat (52 - e));
               r = of_int (roundHalfEven (x / ulp)) * ulp
           in if 2 ^ 1024 \<le> \<bar>r\<bar> then sgn x * 2 ^ 1024 else r)"

text \<open>\<open>Math.max\<close> on two such values.\<close>

fun js_max :: "jsnum \<Rightarrow> jsnum \<Rightarrow> jsnum" where
  "js_max (Num a) (Num b) = Num (max a b)"
| "js_max NegInfinity (Num b) = Num b"
| "js_max (Num a) NegInfinity = Num a"
| "js_max NegInfinity NegInfinity = NegInfinity"
| "js_max _ _ = NaN"

text \<open>The strict inequality \<open>!==\<close> on numbers: \<open>NaN\<close> differs from itself.\<close>

definition js_strict_ne :: "jsnum \<Rightarrow> jsnum \<Rightarrow> bool" where
  "js_strict_ne a b = (a \<noteq> b \<or> a = NaN)"

text \<open>A \<open>RegionMovementWaypoint\<close> as the callers pass it: \<open>{x, y, elevation}\<close>.\<close>

record waypoint =
  wx :: real
  wy :: real
  elevation :: real

text \<open>
  An element of a returned path. The code builds some of them with object literals, so a
  field may be missing (\<open>Undefined\<close>) or hold a non-finite number.
\<close>

record pathpoint =
  px :: jsnum
  py :: jsnum
  pelevation :: jsnum

definition toPathpoint :: "waypoint \<Rightarrow> pathpoint" where
  "toPathpoint w = \<lparr>px = Num (wx w), py = Num (wy w), pelevation = Num (elevation w)\<rparr>"

datatype ELEVATION_LOCATIONS = UNDERGROUND | GROUND | FLOATING

datatype MOVEMENT_SEGMENT_TYPES = EXIT | MOVE | ENTER

text \<open>A segment returned by \<open>Region#segmentizeMovement\<close>: its type and its \<open>to\<close> waypoint.\<close>

record segment =
  seg_type :: MOVEMENT_SEGMENT_TYPES
  seg_to :: waypoint

type_synonym point = "real \<times> real"

text \<open>
  A region is an object of the host application. The code uses four of its methods and
  one flag; they are the fields here. The type \<open>'c\<close> is that of the clipper paths a
  region contributes to a cutaway.
\<close>

record 'c region =
  isElevated :: bool
  testPoint :: "waypoint \<Rightarrow> jsnum \<Rightarrow> bool"
  elevationUponEntry :: "waypoint \<Rightarrow> real"
  segmentizeMovement :: "waypoint list \<Rightarrow> point list \<Rightarrow> segment list"
  region2dCutaway :: "waypoint \<Rightarrow> waypoint \<Rightarrow> 'c option"

text \<open>
  The ambient scene: the getter \<open>sceneFloor\<close> and the regions on the canvas, which
  \<open>elevatedRegions\<close> falls back to when no region list is given.
\<close>

record 'c scene =
  sceneFloor :: real
  canvasRegions :: "'c region list"

text \<open>
  Modelled from the spec: \<open>elevatedRegions\<close> of \<open>util.js\<close> is not among the sources. The
  spec describes it as the zone set query, "all zones overlapping the map, optionally
  restricted to a caller-supplied subset", and the code comments it with "Only care about
  elevated regions".
\<close>

definition elevatedRegions :: "'c scene \<Rightarrow> 'c region list option \<Rightarrow> 'c region list" where
  "elevatedRegions sc regions =
     filter isElevated (case regions of None \<Rightarrow> canvasRegions sc | Some rs \<Rightarrow> rs)"

definition MAX_ITER :: nat where
  "MAX_ITER = 10000"

definition groundError :: string where
  "groundError = ''nearestGroundElevation|Max iterations reached!''"

definition pathError :: string where
  "pathError = ''constructRegionsPath|Iteration exceeded max iterations!''"

definition holesError :: string where
  "holesError = ''Combined cutaway polygons still have holes.''"

section \<open>Elevation classifier\<close>

text \<open>
  The loop of \<open>elevationType\<close> over the regions, returning the flags
  \<open>(inside, offPlateau)\<close>; it stops at the first region that holds the point off its
  plateau.
\<close>

fun elevationType_scan :: "'c region list \<Rightarrow> waypoint \<Rightarrow> bool \<Rightarrow> bool \<times> bool" where
  "elevationType_scan [] w inside = (inside, False)"
| "elevationType_scan (r # rs) w inside =
     (if \<not> testPoint r w (Num (elevation w)) then elevationType_scan rs w inside
      else if elevationUponEntry r w \<noteq> elevation w then (True, True)
      else elevationType_scan rs w True)"

definition elevationType :: "'c scene \<Rightarrow> waypoint \<Rightarrow> 'c region list option \<Rightarrow> ELEVATION_LOCATIONS" where
  "elevationType sc w regions =
     (let (inside, offPlateau) = elevationType_scan (elevatedRegions sc regions) w False
      in if inside \<and> offPlateau then UNDERGROUND
         else if inside \<and> \<not> offPlateau then GROUND
         else if \<not> inside \<and> elevation w = sceneFloor sc then GROUND
         else FLOATING)"

section \<open>Ground resolver\<close>

text \<open>
  The fall of option 2: for each region in turn, the first segment of the vertical move
  from the waypoint to the scene floor; an \<open>ENTER\<close> segment is kept with its region and
  its distance from the start of the fall, \<open>currElevation - segment.to.elevation\<close>, a
  difference of doubles.
\<close>

fun fallIntersections ::
  "'c region list \<Rightarrow> waypoint \<Rightarrow> real \<Rightarrow> point list \<Rightarrow> ('c region \<times> real) list" where
  "fallIntersections [] w terrainFloor samples = []"
| "fallIntersections (r # rs) w terrainFloor samples =
     (case segmentizeMovement r [w, w\<lparr>elevation := terrainFloor\<rparr>] samples of
        [] \<Rightarrow> fallIntersections rs w terrainFloor samples
      | s # _ \<Rightarrow>
          if seg_type s \<noteq> ENTER then fallIntersections rs w terrainFloor samples
          else (r, toDouble (elevation w - elevation (seg_to s)))
                 # fallIntersections rs w terrainFloor samples)"

text \<open>
  One pass of the \<open>for\<close> loop inside the \<open>do ... while\<close>: the maximum entry elevation
  over the regions that contain the waypoint at the current elevation, seeded with
  \<open>Number.NEGATIVE_INFINITY\<close>.
\<close>

definition maxEntryElevation :: "'c region list \<Rightarrow> waypoint \<Rightarrow> jsnum \<Rightarrow> jsnum" where
  "maxEntryElevation regions w currElevation =
     foldl (\<lambda>m r. if testPoint r w currElevation then js_max m (Num (elevationUponEntry r w)) else m)
       NegInfinity regions"

text \<open>
  The \<open>do ... while\<close> loop. The arguments are \<open>iter\<close> and \<open>maxElevation\<close> on entry to the
  body; the result is \<open>iter\<close> and \<open>currElevation\<close> on exit.
\<close>

function groundLoop :: "'c region list \<Rightarrow> waypoint \<Rightarrow> nat \<Rightarrow> jsnum \<Rightarrow> nat \<times> jsnum" where
  "groundLoop regions w iter maxElevation =
     (let iter' = iter + 1;
          currElevation = maxElevation;
          maxElevation' = maxEntryElevation regions w currElevation
      in if js_strict_ne maxElevation' currElevation \<and> iter' < MAX_ITER
         then groundLoop regions w iter' maxElevation'
         else (iter', currElevation))"
  by pat_completeness auto
termination
  by (relation "measure (\<lambda>(regions, w, iter, m). MAX_ITER - iter)") auto

declare groundLoop.simps [simp del]

text \<open>
  \<open>nearestGroundElevation(waypoint, {regions, samples, burrowing = false})\<close>. The result
  is the returned elevation and the messages passed to \<open>console.error\<close>.
\<close>

definition nearestGroundElevation ::
  "'c scene \<Rightarrow> waypoint \<Rightarrow> 'c region list option \<Rightarrow> point list option \<Rightarrow> bool option
     \<Rightarrow> jsnum \<times> string list" where
  "nearestGroundElevation sc w regionsOpt samplesOpt burrowingOpt =
     (let burrowing = (case burrowingOpt of None \<Rightarrow> False | Some b \<Rightarrow> b);
          samples = (case samplesOpt of None \<Rightarrow> [(0, 0)] | Some s \<Rightarrow> s);
          regions = elevatedRegions sc regionsOpt;
          terrainFloor = sceneFloor sc;
          currRegions = filter (\<lambda>r. testPoint r w (Num (elevation w))) regions
      in if burrowing \<and> currRegions \<noteq> [] then (Num (elevation w), [])
         else if currRegions = [] \<and> elevation w = terrainFloor then (Num terrainFloor, [])
         else if currRegions = [] \<and> fallIntersections regions w terrainFloor samples = []
           then (Num terrainFloor, [])
         else
           let currElevation =
                 (if currRegions = []
                  then (case sort_key snd (fallIntersections regions w terrainFloor samples) of
                          [] \<Rightarrow> elevation w
                        | firstIx # _ \<Rightarrow> elevationUponEntry (fst firstIx) w)
                  else elevation w)
           in if burrowing then (Num currElevation, [])
              else let (iter, e) = groundLoop regions w 0 (Num currElevation)
                   in (e, if iter \<ge> MAX_ITER then [groundError] else []))"

text \<open>
  The replacement that the specification iterates in its step 4, written from its words
  for comparison with the loop of the code: "for every zone containing the point at the
  current elevation, compute its entry-elevation; take the maximum across zones". With no
  zone containing the point there is nothing to take the maximum of; the value is then
  the seed of the code's maximum.
\<close>

definition spec_containingEntries :: "'c region list \<Rightarrow> waypoint \<Rightarrow> jsnum \<Rightarrow> real list" where
  "spec_containingEntries regs w e =
     map (\<lambda>r. elevationUponEntry r w) (filter (\<lambda>r. testPoint r w e) regs)"

definition spec_maxEntryElevation :: "'c region list \<Rightarrow> waypoint \<Rightarrow> jsnum \<Rightarrow> jsnum" where
  "spec_maxEntryElevation regs w e =
     (if spec_containingEntries regs w e = [] then NegInfinity
      else Num (Max (set (spec_containingEntries regs w e))))"

section \<open>Coordinate mapper\<close>

text \<open>
  Modelled from the spec: \<open>regionWaypointsEqual\<close> and \<open>regionWaypointsXYEqual\<close> of
  \<open>util.js\<close> are not among the sources. The spec reads them as "start equals end (2D and
  elevation)" and "same 2D position".
\<close>

definition regionWaypointsEqual :: "waypoint \<Rightarrow> waypoint \<Rightarrow> bool" where
  "regionWaypointsEqual a b = (wx a = wx b \<and> wy a = wy b \<and> elevation a = elevation b)"

definition regionWaypointsXYEqual :: "waypoint \<Rightarrow> waypoint \<Rightarrow> bool" where
  "regionWaypointsXYEqual a b = (wx a = wx b \<and> wy a = wy b)"

text \<open>
  On two cutaway points the same function compares \<open>x\<close> and \<open>y\<close>; neither point has an
  \<open>elevation\<close> property, and \<open>undefined === undefined\<close> holds.
\<close>

definition cutawayPointsEqual :: "point \<Rightarrow> point \<Rightarrow> bool" where
  "cutawayPointsEqual a b = (fst a = fst b \<and> snd a = snd b)"

definition xy :: "waypoint \<Rightarrow> point" where
  "xy w = (wx w, wy w)"

text \<open>
  Modelled from the spec: \<open>PIXI.Point.distanceBetween\<close> is a library function that is not
  among the sources; the spec calls it \<open>planarDistance(start, point)\<close>.
\<close>

definition distanceBetween :: "point \<Rightarrow> point \<Rightarrow> real" where
  "distanceBetween a b = sqrt ((fst b - fst a)\<^sup>2 + (snd b - snd a)\<^sup>2)"

text \<open>
  Modelled from the spec: \<open>PIXI.Point#towardsPoint\<close> is a library function that is not
  among the sources; the spec describes its result as the "canvas point located
  \<open>point.distance\<close> along the start\<rightarrow>end ray", that is \<open>start + t (end - start)\<close>
  with \<open>t\<close> the distance as a fraction of \<open>|end - start|\<close>. When start and end
  coincide the ray has no direction and the spec says nothing of \<open>t\<close>; the difference
  \<open>end - start\<close> is then zero, so the located point is the start whatever \<open>t\<close> is.
\<close>

definition towardsPoint :: "point \<Rightarrow> point \<Rightarrow> real \<Rightarrow> point" where
  "towardsPoint a b d =
     (let dx = fst b - fst a; dy = snd b - snd a; m = sqrt (dx\<^sup>2 + dy\<^sup>2); t = d / m
      in (fst a + dx * t, snd a + dy * t))"

definition to2dCutawayCoordinate :: "waypoint \<Rightarrow> waypoint \<Rightarrow> point" where
  "to2dCutawayCoordinate w start = (distanceBetween (xy start) (xy w), elevation w)"

definition from2dCutawayCoordinate :: "point \<Rightarrow> waypoint \<Rightarrow> waypoint \<Rightarrow> pathpoint" where
  "from2dCutawayCoordinate pt start end' =
     (let canvasPt = towardsPoint (xy start) (xy end') (fst pt)
      in \<lparr>px = Num (fst canvasPt), py = Num (snd canvasPt), pelevation = Num (snd pt)\<rparr>)"

section \<open>Cutaway projector\<close>

text \<open>
  The polygon and clipper libraries are not part of the sources. Their functions are the
  fields of this record, over a type \<open>'p\<close> of polygons and a type \<open>'c\<close> of clipper
  paths: \<open>ClipperPaths.fromPolygons\<close>, \<open>combinePaths\<close>, \<open>clean\<close>, \<open>toPolygons\<close>; the
  polygon's \<open>isPositive\<close>, \<open>isClockwise\<close>, \<open>reverseOrientation\<close>, \<open>contains\<close>,
  \<open>linesCross\<close>, \<open>lineSegmentIntersects\<close>, \<open>segmentIntersections\<close> (with
  \<open>indices: true\<close>), \<open>iteratePoints\<close> and \<open>iterateEdges\<close>;
  \<open>foundry.utils.lineLineIntersection\<close> (\<open>None\<close> for its \<open>null\<close>) and
  \<open>closestPointToSegment\<close>; \<open>almostEqual\<close> on points and on numbers.
\<close>

record intersection =
  ix_x :: real
  ix_y :: real
  ix_t0 :: real

record ('p, 'c) geometry =
  fromPolygons :: "point list list \<Rightarrow> 'c"
  combinePaths :: "'c list \<Rightarrow> 'c"
  clean :: "'c \<Rightarrow> 'c"
  toPolygons :: "'c \<Rightarrow> 'p list"
  isPositive :: "'p \<Rightarrow> bool"
  isClockwise :: "'p \<Rightarrow> bool"
  reverseOrientation :: "'p \<Rightarrow> 'p"
  contains :: "'p \<Rightarrow> real \<Rightarrow> real \<Rightarrow> bool"
  linesCross :: "'p \<Rightarrow> (point \<times> point) list \<Rightarrow> bool"
  lineSegmentIntersects :: "'p \<Rightarrow> point \<Rightarrow> point \<Rightarrow> bool"
  segmentIntersections :: "'p \<Rightarrow> point \<Rightarrow> point \<Rightarrow> nat list"
  iteratePoints :: "'p \<Rightarrow> point list"
  iterateEdges :: "'p \<Rightarrow> (point \<times> point) list"
  lineLineIntersection :: "point \<Rightarrow> point \<Rightarrow> point \<Rightarrow> point \<Rightarrow> intersection option"
  closestPointToSegment :: "point \<Rightarrow> point \<Rightarrow> point \<Rightarrow> point"
  pointAlmostEqual :: "point \<Rightarrow> point \<Rightarrow> bool"
  numberAlmostEqual :: "real \<Rightarrow> real \<Rightarrow> real \<Rightarrow> bool"

definition MIN_ELEV :: real where
  "MIN_ELEV = - 1000000"

text \<open>
  \<open>_regions2dCutaway(start, end, regions)\<close>: the polygons and the messages logged. A
  region whose \<open>_region2dCutaway\<close> is \<open>null\<close> contributes nothing.
\<close>

definition regions2dCutaway ::
  "('p, 'c) geometry \<Rightarrow> 'c scene \<Rightarrow> waypoint \<Rightarrow> waypoint \<Rightarrow> 'c region list
     \<Rightarrow> 'p list \<times> string list" where
  "regions2dCutaway g sc start end' regions =
     (let paths = List.map_filter (\<lambda>r. region2dCutaway r start end') regions;
          dist = distanceBetween (xy start) (xy end');
          floorPoly = [(0, sceneFloor sc), (0, MIN_ELEV), (dist, MIN_ELEV), (dist, sceneFloor sc)];
          paths' = paths @ [fromPolygons g [floorPoly]];
          combinedPaths = combinePaths g paths';
          combinedPolys = toPolygons g (clean g combinedPaths)
      in if combinedPolys = [] \<or> list_all (\<lambda>poly. \<not> isPositive g poly) combinedPolys then ([], [])
         else (combinedPolys,
               if list_ex (\<lambda>poly. \<not> isPositive g poly) combinedPolys then [holesError] else []))"

section \<open>Helper functions of the path tracer\<close>

datatype error = TypeError

text \<open>
  An intersection as \<open>polygonsIntersections\<close> returns it: the point and \<open>t0\<close> of
  \<open>lineLineIntersection\<close>, the edge with its position in \<open>poly._edges\<close>, and the polygon.
  A polygon object is carried with its position in the list of cutaway polygons, which
  stands for its identity in the comparisons with \<open>===\<close>.
\<close>

record 'p crossing =
  cr_point :: point
  cr_t0 :: real
  cr_edge :: "point \<times> point"
  cr_edgeIndex :: nat
  cr_poly :: "nat \<times> 'p"

text \<open>
  The \<open>forEach\<close> over the edge indices of one polygon. Reading \<open>edge.A\<close> of a missing
  edge and \<open>ix.t0\<close> of a \<open>null\<close> intersection raise a \<open>TypeError\<close>; an intersection
  whose \<open>t0\<close> is zero is skipped.
\<close>

fun edgeIntersections ::
  "('p, 'c) geometry \<Rightarrow> point \<Rightarrow> point \<Rightarrow> (point \<times> point) list \<Rightarrow> nat \<times> 'p \<Rightarrow> nat list
     \<Rightarrow> error + 'p crossing list" where
  "edgeIntersections g a b edges k [] = Inr []"
| "edgeIntersections g a b edges k (i # is) =
     (if i \<ge> length edges then Inl TypeError
      else let edge = edges ! i in
        case lineLineIntersection g a b (fst edge) (snd edge) of
          None \<Rightarrow> Inl TypeError
        | Some ix \<Rightarrow>
            (case edgeIntersections g a b edges k is of
               Inl e \<Rightarrow> Inl e
             | Inr rest \<Rightarrow>
                 if ix_t0 ix = 0 then Inr rest
                 else Inr (\<lparr>cr_point = (ix_x ix, ix_y ix), cr_t0 = ix_t0 ix,
                            cr_edge = edge, cr_edgeIndex = i, cr_poly = k\<rparr> # rest)))"

text \<open>
  The \<open>forEach\<close> over the polygons, each with its position. The test on \<open>poly._xMinMax\<close>
  never skips a polygon: the code stores the bounds under \<open>_minMax\<close>, so \<open>_xMinMax\<close> is
  \<open>undefined\<close>.
\<close>

fun polygonsIntersections_scan ::
  "('p, 'c) geometry \<Rightarrow> point \<Rightarrow> point \<Rightarrow> (nat \<times> 'p) list \<Rightarrow> nat option
     \<Rightarrow> error + 'p crossing list" where
  "polygonsIntersections_scan g a b [] skipPoly = Inr []"
| "polygonsIntersections_scan g a b ((k, poly) # rest) skipPoly =
     (if Some k = skipPoly then polygonsIntersections_scan g a b rest skipPoly
      else if \<not> lineSegmentIntersects g poly a b then polygonsIntersections_scan g a b rest skipPoly
      else
        case edgeIntersections g a b (iterateEdges g poly) (k, poly)
               (segmentIntersections g poly a b) of
          Inl e \<Rightarrow> Inl e
        | Inr ixs \<Rightarrow>
            (case polygonsIntersections_scan g a b rest skipPoly of
               Inl e \<Rightarrow> Inl e
             | Inr others \<Rightarrow> Inr (ixs @ others)))"

definition polygonsIntersections ::
  "('p, 'c) geometry \<Rightarrow> point \<Rightarrow> point \<Rightarrow> 'p list \<Rightarrow> nat option \<Rightarrow> error + 'p crossing list" where
  "polygonsIntersections g a b combinedPolys skipPoly =
     (case polygonsIntersections_scan g a b (enumerate 0 combinedPolys) skipPoly of
        Inl e \<Rightarrow> Inl e
      | Inr ixs \<Rightarrow> Inr (sort_key cr_t0 ixs))"

definition pointOnPolygonEdge :: "('p, 'c) geometry \<Rightarrow> point \<Rightarrow> 'p \<Rightarrow> bool" where
  "pointOnPolygonEdge g a poly =
     list_ex (\<lambda>edge. pointAlmostEqual g a (closestPointToSegment g a (fst edge) (snd edge)))
       (iterateEdges g poly)"

definition cutawayElevationType ::
  "('p, 'c) geometry \<Rightarrow> point \<Rightarrow> 'p list \<Rightarrow> ELEVATION_LOCATIONS" where
  "cutawayElevationType g a polys =
     (if list_ex (\<lambda>poly. contains g poly (fst a) (snd a)) polys then UNDERGROUND
      else if list_ex (\<lambda>poly. pointOnPolygonEdge g a poly) polys then GROUND
      else FLOATING)"

text \<open>\<open>Array.prototype.findIndex\<close>: the first position that satisfies the test, or \<open>-1\<close>.\<close>

fun findIndexFrom :: "('a \<Rightarrow> bool) \<Rightarrow> 'a list \<Rightarrow> int \<Rightarrow> int" where
  "findIndexFrom P [] i = - 1"
| "findIndexFrom P (x # xs) i = (if P x then i else findIndexFrom P xs (i + 1))"

definition findIndex :: "('a \<Rightarrow> bool) \<Rightarrow> 'a list \<Rightarrow> int" where
  "findIndex P xs = findIndexFrom P xs 0"

section \<open>Path tracer\<close>

text \<open>
  The points that the loop handles are objects, and the statement after the loop assigns
  to a property of one of them, so it matters which waypoints are the same object. An
  object is named by where it comes from: \<open>start2d\<close>; \<open>end2d\<close>; the object literal
  \<open>{ x: ..., y: sceneFloor }\<close> built when \<open>n\<close> waypoints had been pushed (none before the
  loop); the element \<open>j\<close> of the array that \<open>polygonsIntersections\<close> returned when \<open>n\<close>
  waypoints had been pushed; the end \<open>B\<close> of the edge \<open>i\<close> of the polygon \<open>k\<close>
  (\<open>poly._edges[i].B\<close>); the point \<open>i\<close> of the polygon \<open>k\<close> (\<open>poly._pts[i]\<close>). Both arrays
  are computed once for a polygon and kept. The polygon library is not among the sources:
  its arrays are taken to hold a distinct object at each position, and
  \<open>lineLineIntersection\<close> to return a new object at every call, as the code, which
  stores the edge and the polygon in that object, presumes.
\<close>

datatype objectRef =
  Start2d | End2d | FloorPoint nat | Intersection nat nat | EdgeB nat nat | PolyPoint nat nat

text \<open>
  The variables of the \<open>while\<close> loop of \<open>constructRegionsPath\<close>. \<open>currEnd\<close> is \<open>None\<close>
  when it holds \<open>undefined\<close>, the value of \<open>currPoly._pts[currPolyIndex]\<close> for a polygon
  without points. \<open>positionRef\<close> and \<open>endRef\<close> name the objects that \<open>currPosition\<close> and
  \<open>currEnd\<close> hold, \<open>waypointRefs\<close> the objects in \<open>waypoints\<close>, position by position.
\<close>

record 'p march_state =
  currPosition :: point
  currEnd :: "point option"
  currPoly :: "(nat \<times> 'p) option"
  currPolyIndex :: int
  waypoints :: "point list"
  positionRef :: objectRef
  endRef :: objectRef
  waypointRefs :: "objectRef list"

text \<open>The constants that the loop reads.\<close>

record 'p march_consts =
  c_polys :: "'p list"
  c_sceneFloor :: real
  c_flying :: "bool option"
  c_burrowing :: "bool option"
  c_end2d :: point
  c_endType :: ELEVATION_LOCATIONS
  c_destPoly :: "(nat \<times> 'p) option"

datatype 'a outcome = Break 'a | Continue 'a

text \<open>
  Steps 1 to 3 of the loop body: the interim target, the object that holds it, and the
  tracked polygon after the three redirections. \<open>n\<close> is the number of waypoints pushed so
  far.
\<close>

definition redirectEnd ::
  "'p march_consts \<Rightarrow> nat \<Rightarrow> point \<Rightarrow> point \<Rightarrow> objectRef \<Rightarrow> (nat \<times> 'p) option
     \<Rightarrow> point \<times> objectRef \<times> (nat \<times> 'p) option" where
  "redirectEnd c n pos ce ceRef cp =
     (let (ce1, ref1, cp1) =
            (if fst ce < fst pos
             then (if c_flying c = Some True then (c_end2d c, End2d, None)
                   else ((fst pos, c_sceneFloor c), FloorPoint n, None))
             else (ce, ceRef, cp));
          (ce2, ref2, cp2) =
            (if c_flying c = Some True \<and> snd ce1 < snd (c_end2d c) \<and> snd ce1 < snd pos
             then (c_end2d c, End2d, None)
             else (ce1, ref1, cp1))
      in if cutawayPointsEqual pos ce2 then (c_end2d c, End2d, None) else (ce2, ref2, cp2))"

definition hasLOSToEnd :: "('p, 'c) geometry \<Rightarrow> 'p march_consts \<Rightarrow> point \<Rightarrow> bool" where
  "hasLOSToEnd g c pos =
     ((c_flying c = Some True \<or> c_burrowing c = Some True)
      \<and> \<not> list_ex (\<lambda>poly. linesCross g poly [(pos, c_end2d c)]) (c_polys c))"

text \<open>\<open>destPoly === currPoly\<close>: \<open>undefined\<close> and \<open>null\<close> differ, two polygons are compared by identity.\<close>

definition samePolygon :: "(nat \<times> 'p) option \<Rightarrow> (nat \<times> 'p) option \<Rightarrow> bool" where
  "samePolygon destPoly cp =
     (case (destPoly, cp) of (Some d, Some p) \<Rightarrow> fst d = fst p | _ \<Rightarrow> False)"

text \<open>
  Step 6: cycle to the next point of the tracked polygon. The interim target becomes the
  new position; the new interim target is \<open>currPoly._pts[currPolyIndex]\<close>.
\<close>

definition cycleToNextPoint ::
  "('p, 'c) geometry \<Rightarrow> nat \<times> 'p \<Rightarrow> point \<Rightarrow> objectRef \<Rightarrow> int \<Rightarrow> point list
     \<Rightarrow> objectRef list \<Rightarrow> 'p march_state" where
  "cycleToNextPoint g poly ce ceRef idx wps refs =
     (let pts = iteratePoints g (snd poly);
          idx1 = idx + 1;
          idx2 = (if idx1 \<ge> int (length pts) then 0 else idx1)
      in \<lparr>currPosition = ce,
          currEnd = (if 0 \<le> idx2 \<and> idx2 < int (length pts) then Some (pts ! nat idx2) else None),
          currPoly = Some poly,
          currPolyIndex = idx2,
          waypoints = wps,
          positionRef = ceRef,
          endRef = PolyPoint (fst poly) (nat idx2),
          waypointRefs = refs\<rparr>)"

text \<open>
  Step 5, when no polygon is tracked. In \<open>ixs.find(thisIx => this.ix !== thisIx && thisIx.poly === currPoly)\<close>
  the property \<open>this.ix\<close> is \<open>undefined\<close>, so the first conjunct holds of every element. The
  element found is the object at the position that \<open>findIndex\<close> gives for the same test.
\<close>

definition moveToPolygon ::
  "('p, 'c) geometry \<Rightarrow> 'p march_consts \<Rightarrow> point \<Rightarrow> point \<Rightarrow> objectRef \<Rightarrow> int \<Rightarrow> point list
     \<Rightarrow> objectRef list \<Rightarrow> error + 'p march_state outcome" where
  "moveToPolygon g c pos ce ceRef idx wps refs =
     (case polygonsIntersections g pos ce (c_polys c) None of
        Inl e \<Rightarrow> Inl e
      | Inr [] \<Rightarrow>
          Inr (Continue \<lparr>currPosition = ce, currEnd = Some ce, currPoly = None,
                         currPolyIndex = idx, waypoints = wps,
                         positionRef = ceRef, endRef = ceRef, waypointRefs = refs\<rparr>)
      | Inr (ix0 # ixs) \<Rightarrow>
          let n = length wps;
              pos1 = cr_point ix0;
              poly = cr_poly ix0;
              wps1 = wps @ [pos1];
              refs1 = refs @ [Intersection n 0];
              otherIx = (if c_burrowing c = Some True
                         then find (\<lambda>thisIx. fst (cr_poly thisIx) = fst poly) (ix0 # ixs)
                         else None);
              otherPos = findIndex (\<lambda>thisIx. fst (cr_poly thisIx) = fst poly) (ix0 # ixs)
          in (case otherIx of
                Some other \<Rightarrow>
                  Inr (Continue \<lparr>currPosition = cr_point other, currEnd = Some (c_end2d c),
                                 currPoly = None, currPolyIndex = idx, waypoints = wps1,
                                 positionRef = Intersection n (nat otherPos), endRef = End2d,
                                 waypointRefs = refs1\<rparr>)
              | None \<Rightarrow>
                  let ce1 = snd (cr_edge ix0);
                      idx1 = findIndex (\<lambda>pt. pointAlmostEqual g pt ce1) (iteratePoints g (snd poly))
                  in Inr (Continue (cycleToNextPoint g poly ce1
                                      (EdgeB (fst poly) (cr_edgeIndex ix0)) idx1 wps1 refs1))))"

text \<open>
  One pass of the loop body after \<open>iter += 1\<close>. Reading \<open>currEnd.x\<close> of \<open>undefined\<close>
  raises a \<open>TypeError\<close>.
\<close>

definition marchBody ::
  "('p, 'c) geometry \<Rightarrow> 'p march_consts \<Rightarrow> 'p march_state \<Rightarrow> error + 'p march_state outcome" where
  "marchBody g c st =
     (let pos = currPosition st;
          wps = waypoints st @ [pos];
          refs = waypointRefs st @ [positionRef st]
      in case currEnd st of
           None \<Rightarrow> Inl TypeError
         | Some ce0 \<Rightarrow>
             let (ce, ceRef, cp) = redirectEnd c (length wps) pos ce0 (endRef st) (currPoly st)
             in if fst pos \<ge> fst (c_end2d c)
                then Inr (Break (st\<lparr>currEnd := Some ce, currPoly := cp, waypoints := wps,
                                      endRef := ceRef, waypointRefs := refs\<rparr>))
                else if hasLOSToEnd g c pos
                        \<and> ((c_flying c = Some True \<and> c_endType c = FLOATING)
                           \<or> (c_burrowing c = Some True \<and> samePolygon (c_destPoly c) cp))
                then Inr (Continue \<lparr>currPosition = ce, currEnd = Some ce, currPoly = None,
                                    currPolyIndex = currPolyIndex st, waypoints = wps,
                                    positionRef = ceRef, endRef = ceRef, waypointRefs = refs\<rparr>)
                else (case cp of
                        None \<Rightarrow> moveToPolygon g c pos ce ceRef (currPolyIndex st) wps refs
                      | Some poly \<Rightarrow>
                          Inr (Continue (cycleToNextPoint g poly ce ceRef (currPolyIndex st) wps refs))))"

text \<open>
  The \<open>while (iter < MAX_ITER)\<close> loop: the result is \<open>iter\<close> and the variables on exit,
  or the exception raised.
\<close>

function march ::
  "('p, 'c) geometry \<Rightarrow> 'p march_consts \<Rightarrow> nat \<Rightarrow> 'p march_state \<Rightarrow> error + nat \<times> 'p march_state" where
  "march g c iter st =
     (if iter < MAX_ITER
      then (case marchBody g c st of
              Inl e \<Rightarrow> Inl e
            | Inr (Break st') \<Rightarrow> Inr (iter + 1, st')
            | Inr (Continue st') \<Rightarrow> march g c (iter + 1) st')
      else Inr (iter, st))"
  by pat_completeness auto
termination
  by (relation "measure (\<lambda>(g, c, iter, st). MAX_ITER - iter)") auto

declare march.simps [simp del]

text \<open>
  "Undo rounding of the end point": the last waypoint takes the (floored) distance of
  \<open>end2d\<close> when the two are almost equal. The assignment is to the \<open>x\<close> of an object, so
  every waypoint that is this object takes that distance. \<open>waypoints.at(-1)\<close> of an empty
  array is \<open>undefined\<close>, and reading its \<open>x\<close> raises.
\<close>

definition undoRounding ::
  "('p, 'c) geometry \<Rightarrow> point \<Rightarrow> objectRef list \<Rightarrow> point list \<Rightarrow> error + point list" where
  "undoRounding g e2d refs wps =
     (case rev (zip refs wps) of
        [] \<Rightarrow> Inl TypeError
      | (lastRef, endWaypoint) # before \<Rightarrow>
          if numberAlmostEqual g (fst e2d) (fst endWaypoint) 0.51
          then Inr (map (\<lambda>(r, p). if r = lastRef then (fst e2d, snd p) else p) (zip refs wps))
          else Inr wps)"

text \<open>\<open>combinedPolys.find(poly => poly.contains(end2d.x, end2d.y) || pointOnPolygonEdge(end2d, poly))\<close>.\<close>

definition findDestPoly :: "('p, 'c) geometry \<Rightarrow> point \<Rightarrow> 'p list \<Rightarrow> (nat \<times> 'p) option" where
  "findDestPoly g e2d polys =
     find (\<lambda>(k, poly). contains g poly (fst e2d) (snd e2d) \<or> pointOnPolygonEdge g e2d poly)
       (enumerate 0 polys)"

text \<open>
  The constants of the march, computed from the cutaway polygons: the end in cutaway
  coordinates with its distance rounded down, the polygons oriented for the walking
  direction, and the polygon of an underground end.
\<close>

definition tracerConsts ::
  "('p, 'c) geometry \<Rightarrow> 'c scene \<Rightarrow> waypoint \<Rightarrow> waypoint \<Rightarrow> 'p list
     \<Rightarrow> bool option \<Rightarrow> bool option \<Rightarrow> ELEVATION_LOCATIONS \<Rightarrow> 'p march_consts" where
  "tracerConsts g sc start end' combinedPolys flying burrowing endType =
     (let start2d = to2dCutawayCoordinate start start;
          end2d0 = to2dCutawayCoordinate end' start;
          end2d = (of_int \<lfloor>fst end2d0\<rfloor>, snd end2d0);
          walkDirCw = (\<not> fst end2d > fst start2d);
          polys = map (\<lambda>poly. if isClockwise g poly \<noteq> walkDirCw
                               then reverseOrientation g poly else poly) combinedPolys;
          destPoly = (if endType = UNDERGROUND then findDestPoly g end2d polys else None)
      in \<lparr>c_polys = polys, c_sceneFloor = sceneFloor sc, c_flying = flying,
          c_burrowing = burrowing, c_end2d = end2d, c_endType = endType,
          c_destPoly = destPoly\<rparr>)"

text \<open>
  The variables on entry to the loop. A start that is underground without burrowing, or
  floating without flying, first moves to the scene floor.
\<close>

definition tracerStart ::
  "('p, 'c) geometry \<Rightarrow> waypoint \<Rightarrow> 'p march_consts \<Rightarrow> 'p march_state" where
  "tracerStart g start c =
     (let start2d = to2dCutawayCoordinate start start;
          startType = cutawayElevationType g start2d (c_polys c);
          toFloor = ((c_burrowing c = Some False \<and> startType = UNDERGROUND)
                     \<or> (c_flying c = Some False \<and> startType = FLOATING));
          currEnd0 = (if toFloor then (fst start2d, c_sceneFloor c) else c_end2d c)
      in \<lparr>currPosition = start2d, currEnd = Some currEnd0, currPoly = None,
          currPolyIndex = - 1, waypoints = [],
          positionRef = Start2d, endRef = (if toFloor then FloorPoint 0 else End2d),
          waypointRefs = []\<rparr>)"

text \<open>
  The general case of \<open>constructRegionsPath\<close>, from the construction of the cutaway on.
  \<open>regions\<close> are the elevated regions, \<open>endType\<close> the classification of the end.
\<close>

definition tracePath ::
  "('p, 'c) geometry \<Rightarrow> 'c scene \<Rightarrow> waypoint \<Rightarrow> waypoint \<Rightarrow> 'c region list
     \<Rightarrow> bool option \<Rightarrow> bool option \<Rightarrow> ELEVATION_LOCATIONS
     \<Rightarrow> error + pathpoint list \<times> string list" where
  "tracePath g sc start end' regions flying burrowing endType =
     (let (combinedPolys, log1) = regions2dCutaway g sc start end' regions
      in if combinedPolys = [] then Inr ([toPathpoint start, toPathpoint end'], log1)
         else
           let c = tracerConsts g sc start end' combinedPolys flying burrowing endType
           in case march g c 0 (tracerStart g start c) of
                Inl e \<Rightarrow> Inl e
              | Inr (iter, st) \<Rightarrow>
                  let log2 = (if iter \<ge> MAX_ITER then [pathError] else [])
                  in (case undoRounding g (c_end2d c) (waypointRefs st) (waypoints st) of
                        Inl e \<Rightarrow> Inl e
                      | Inr wps \<Rightarrow>
                          Inr (map (\<lambda>waypoint. from2dCutawayCoordinate waypoint start end') wps,
                               log1 @ log2)))"

text \<open>
  \<open>constructRegionsPath(start, end, {regions, flying, burrowing, samples})\<close>: the path and
  the messages logged, or the exception raised. In the elevation-only case the new end is
  the object literal \<open>{ x: end.x, elevation: endE }\<close>, which has no \<open>y\<close>.
\<close>

definition constructRegionsPath ::
  "('p, 'c) geometry \<Rightarrow> 'c scene \<Rightarrow> waypoint \<Rightarrow> waypoint \<Rightarrow> 'c region list option
     \<Rightarrow> bool option \<Rightarrow> bool option \<Rightarrow> point list option
     \<Rightarrow> error + pathpoint list \<times> string list" where
  "constructRegionsPath g sc start end' regionsOpt flying burrowing samples =
     (if regionWaypointsEqual start end' \<or> (flying = Some True \<and> burrowing = Some True)
      then Inr ([toPathpoint start, toPathpoint end'], [])
      else
        let regions = elevatedRegions sc regionsOpt
        in if regions = [] then Inr ([toPathpoint start, toPathpoint end'], [])
           else
             let endType = elevationType sc end' (Some regions)
             in if regionWaypointsXYEqual start end'
                then (if (flying = Some False \<and> endType = FLOATING)
                         \<or> (burrowing = Some False \<and> endType = UNDERGROUND)
                      then let (endE, log) = nearestGroundElevation sc end' (Some regions) samples burrowing
                           in Inr ([toPathpoint start,
                                    \<lparr>px = Num (wx end'), py = Undefined, pelevation = endE\<rparr>], log)
                      else Inr ([toPathpoint start, toPathpoint end'], []))
                else tracePath g sc start end' regions flying burrowing endType)"

section \<open>Example scenes\<close>

text \<open>
  Concrete inputs on which the theorems below are instantiated. An example region covers
  the strip \<open>x0 \<le> x \<le> x1\<close> of the canvas between the elevations \<open>lo\<close> and \<open>hi\<close>; the
  elevation upon entry at a point is \<open>surface x\<close>. A vertical fall from above \<open>hi\<close> to
  \<open>hi\<close> or below enters it at \<open>hi\<close>. It contributes no cutaway polygon.
\<close>

definition exampleRegion ::
  "real \<Rightarrow> real \<Rightarrow> real \<Rightarrow> real \<Rightarrow> (real \<Rightarrow> real) \<Rightarrow> (point list list) region" where
  "exampleRegion x0 x1 lo hi surface =
     \<lparr>isElevated = True,
      testPoint = (\<lambda>w e. x0 \<le> wx w \<and> wx w \<le> x1
                     \<and> (case e of Num v \<Rightarrow> lo \<le> v \<and> v \<le> hi | _ \<Rightarrow> False)),
      elevationUponEntry = (\<lambda>w. surface (wx w)),
      segmentizeMovement = (\<lambda>wps samples.
         case wps of
           [a, b] \<Rightarrow> if x0 \<le> wx a \<and> wx a \<le> x1 \<and> hi < elevation a \<and> elevation b \<le> hi
                     then [\<lparr>seg_type = ENTER, seg_to = a\<lparr>elevation := hi\<rparr>\<rparr>] else []
         | _ \<Rightarrow> []),
      region2dCutaway = (\<lambda>start end'. None)\<rparr>"

text \<open>A plateau at elevation 10 over \<open>3 \<le> x \<le> 7\<close>, in a scene whose floor is at 0.\<close>

definition plateau10 :: "(point list list) region" where
  "plateau10 = exampleRegion 3 7 0 10 (\<lambda>x. 10)"

definition exampleScene :: "(point list list) scene" where
  "exampleScene = \<lparr>sceneFloor = 0, canvasRegions = [plateau10]\<rparr>"

definition wpAt :: "real \<Rightarrow> real \<Rightarrow> real \<Rightarrow> waypoint" where
  "wpAt a b e = \<lparr>wx = a, wy = b, elevation = e\<rparr>"

text \<open>
  A ramp over \<open>4 \<le> x \<le> 8\<close> whose surface is at \<open>10 + x\<close>, above the plateau where the
  two overlap, and a tower at elevation 50 over \<open>20 \<le> x \<le> 25\<close>, away from both.
\<close>

definition ramp15 :: "(point list list) region" where
  "ramp15 = exampleRegion 4 8 0 20 (\<lambda>x. 10 + x)"

definition tower50 :: "(point list list) region" where
  "tower50 = exampleRegion 20 25 0 50 (\<lambda>x. 50)"

definition rampScene :: "(point list list) scene" where
  "rampScene = \<lparr>sceneFloor = 0, canvasRegions = [tower50, plateau10, ramp15]\<rparr>"

text \<open>
  A low step at elevation 4 under the plateau, listed before and after it; and two steps
  at elevations 1/2 and 1 over \<open>0 \<le> x \<le> 10\<close>, for a fall from very high.
\<close>

definition low4 :: "(point list list) region" where
  "low4 = exampleRegion 3 7 0 4 (\<lambda>x. 4)"

definition stackScene :: "(point list list) scene" where
  "stackScene = \<lparr>sceneFloor = 0, canvasRegions = [low4, plateau10, low4]\<rparr>"

definition halfStep :: "(point list list) region" where
  "halfStep = exampleRegion 0 10 0 (1/2) (\<lambda>x. 1/2)"

definition oneStep :: "(point list list) region" where
  "oneStep = exampleRegion 0 10 0 1 (\<lambda>x. 1)"

definition highScene :: "(point list list) scene" where
  "highScene = \<lparr>sceneFloor = 0, canvasRegions = [halfStep, oneStep]\<rparr>"

text \<open>
  An example geometry over polygons given by their points, in which no segment meets a
  polygon: the clipper keeps the polygons it is given that have at least three distinct
  points, and every intersection test is negative.
\<close>

definition exampleGeometry :: "(point list, point list list) geometry" where
  "exampleGeometry =
     \<lparr>fromPolygons = (\<lambda>polys. polys),
      combinePaths = concat,
      clean = (\<lambda>paths. paths),
      toPolygons = filter (\<lambda>poly. 3 \<le> length (remdups poly)),
      isPositive = (\<lambda>poly. True),
      isClockwise = (\<lambda>poly. False),
      reverseOrientation = rev,
      contains = (\<lambda>poly x y. False),
      linesCross = (\<lambda>poly lines. False),
      lineSegmentIntersects = (\<lambda>poly a b. False),
      segmentIntersections = (\<lambda>poly a b. []),
      iteratePoints = (\<lambda>poly. poly),
      iterateEdges = (\<lambda>poly. zip poly (rotate1 poly)),
      lineLineIntersection = (\<lambda>a b c d. None),
      closestPointToSegment = (\<lambda>a A B. A),
      pointAlmostEqual = (\<lambda>a b. a = b),
      numberAlmostEqual = (\<lambda>a b e. \<bar>a - b\<bar> \<le> e)\<rparr>"

text \<open>
  A geometry in which the march never advances: every segment meets every polygon in
  the point \<open>(0, 1)\<close>, which is also the only point of the polygon.
\<close>

definition loopGeometry :: "(point list, point list list) geometry" where
  "loopGeometry =
     exampleGeometry
       \<lparr>lineSegmentIntersects := (\<lambda>poly a b. True),
        segmentIntersections := (\<lambda>poly a b. [0]),
        iteratePoints := (\<lambda>poly. [(0, 1)]),
        iterateEdges := (\<lambda>poly. [((0, 1), (0, 1))]),
        lineLineIntersection := (\<lambda>a b c d. Some \<lparr>ix_x = 0, ix_y = 1, ix_t0 = 1\<rparr>)\<rparr>"

text \<open>
  A geometry in which every segment meets every polygon once, at the distance \<open>10.25\<close> on
  the scene floor.
\<close>

definition burrowGeometry :: "(point list, point list list) geometry" where
  "burrowGeometry =
     exampleGeometry
       \<lparr>lineSegmentIntersects := (\<lambda>poly a b. True),
        segmentIntersections := (\<lambda>poly a b. [0]),
        lineLineIntersection := (\<lambda>a b c d. Some \<lparr>ix_x = 41/4, ix_y = 0, ix_t0 = 1\<rparr>)\<rparr>"

text \<open>A scene whose floor lies at \<open>MIN_ELEV\<close>, so that the floor polygon of a cutaway is flat.\<close>

definition deepScene :: "(point list list) scene" where
  "deepScene = \<lparr>sceneFloor = - 1000000, canvasRegions = [plateau10]\<rparr>"

text \<open>
  Two regions that send a point back and forth: the first holds the elevations 0 to 4 and
  enters at 5, the second holds 5 to 9 and enters at 0.
\<close>

definition cycleScene :: "(point list list) scene" where
  "cycleScene = \<lparr>sceneFloor = 0,
                  canvasRegions = [exampleRegion 0 10 0 4 (\<lambda>x. 5), exampleRegion 0 10 5 9 (\<lambda>x. 0)]\<rparr>"

text \<open>
  The march in \<open>loopGeometry\<close> over the scene floor from \<open>(0, 0)\<close> to \<open>(10, 0)\<close>: its
  cutaway polygon, its constants, and the state it returns to after every pass, with the
  waypoints \<open>W\<close> collected so far and the objects \<open>R\<close> that they are. Every pass pushes
  the end of the edge it stands on and a new intersection; \<open>loopRefs n d\<close> are the objects
  pushed by \<open>d\<close> passes that start with \<open>n\<close> waypoints.
\<close>

definition loopRect :: "point list" where
  "loopRect = [(0, 0), (0, - 1000000), (10, - 1000000), (10, 0)]"

definition loopState :: "point list \<Rightarrow> objectRef list \<Rightarrow> (point list) march_state" where
  "loopState W R = \<lparr>currPosition = (0, 1), currEnd = Some (0, 1), currPoly = Some (0, loopRect),
                    currPolyIndex = 0, waypoints = W,
                    positionRef = EdgeB 0 0, endRef = PolyPoint 0 0, waypointRefs = R\<rparr>"

fun loopRefs :: "nat \<Rightarrow> nat \<Rightarrow> objectRef list" where
  "loopRefs n 0 = []"
| "loopRefs n (Suc d) = EdgeB 0 0 # Intersection (Suc n) 0 # loopRefs (Suc (Suc n)) d"

definition loopConsts :: "(point list) march_consts" where
  "loopConsts = \<lparr>c_polys = [loopRect], c_sceneFloor = 0, c_flying = None, c_burrowing = None,
                 c_end2d = (10, 0), c_endType = GROUND, c_destPoly = None\<rparr>"

section \<open>What the tracer expects of the geometry library\<close>

text \<open>
  The tracer reads \<open>poly._edges[i]\<close> for every index that \<open>segmentIntersections\<close>
  returns, reads \<open>t0\<close> of the intersection of the segment with that edge, and reads a
  point of the polygon it tracks. A polygon is well formed when these reads succeed: it
  has a point, the indices are positions of edges, and the intersection with a reported
  edge is not \<open>null\<close>. A geometry is well formed when the polygons that \<open>toPolygons\<close>
  returns are, in either orientation.
\<close>

definition wellFormedPolygon :: "('p, 'c) geometry \<Rightarrow> 'p \<Rightarrow> bool" where
  "wellFormedPolygon g poly =
     (iteratePoints g poly \<noteq> []
      \<and> (\<forall>a b. \<forall>i\<in>set (segmentIntersections g poly a b).
            i < length (iterateEdges g poly)
            \<and> lineLineIntersection g a b (fst (iterateEdges g poly ! i))
                 (snd (iterateEdges g poly ! i)) \<noteq> None))"

definition wellFormedGeometry :: "('p, 'c) geometry \<Rightarrow> bool" where
  "wellFormedGeometry g =
     (\<forall>paths. \<forall>poly\<in>set (toPolygons g paths).
        wellFormedPolygon g poly \<and> wellFormedPolygon g (reverseOrientation g poly))"

text \<open>
  What holds of the loop variables before every pass when the polygons are well formed:
  the interim target is defined, the index is at least \<open>-1\<close>, and a tracked polygon is
  well formed.
\<close>

definition marchInv :: "('p, 'c) geometry \<Rightarrow> 'p march_state \<Rightarrow> bool" where
  "marchInv g st = (currEnd st \<noteq> None \<and> - 1 \<le> currPolyIndex st
                    \<and> (\<forall>p. currPoly st = Some p \<longrightarrow> wellFormedPolygon g (snd p)))"

fun outcomeState :: "'a outcome \<Rightarrow> 'a" where
  "outcomeState (Break s) = s"
| "outcomeState (Continue s) = s"

section \<open>Properties of the ground resolver\<close>

lemma ilog2_numeral [simp]:
  "ilog2 (numeral k) = (if numeral k < (2::nat) then 0 else Suc (ilog2 (numeral k div 2)))"
  by (subst ilog2.simps) simp

lemma ilog2_small [simp]: "ilog2 0 = 0" "ilog2 1 = 0" "ilog2 (Suc 0) = 0"
  by (subst ilog2.simps, simp)+

lemmas toDouble_defs = toDouble_def binaryExponent_def roundHalfEven_def Let_def

lemma wpAt_sel [simp]:
  "wx (wpAt a b e) = a" "wy (wpAt a b e) = b" "elevation (wpAt a b e) = e"
  by (simp_all add: wpAt_def)

lemma maxEntry_fold_not_NaN:
  "m = NegInfinity \<or> (\<exists>v. m = Num v) \<Longrightarrow>
   foldl (\<lambda>m r. if testPoint r w c then js_max m (Num (elevationUponEntry r w)) else m) m rs = NegInfinity
   \<or> (\<exists>v. foldl (\<lambda>m r. if testPoint r w c then js_max m (Num (elevationUponEntry r w)) else m) m rs = Num v)"
proof (induction rs arbitrary: m)
  case Nil
  then show ?case by simp
next
  case (Cons r rs)
  have "js_max m (Num (elevationUponEntry r w)) = NegInfinity \<or> (\<exists>v. js_max m (Num (elevationUponEntry r w)) = Num v)"
    using Cons.prems by auto
  then show ?case using Cons.IH[of "js_max m (Num (elevationUponEntry r w))"] Cons.IH[OF Cons.prems]
    by simp
qed

lemma maxEntryElevation_cases:
  "maxEntryElevation rs w c = NegInfinity \<or> (\<exists>v. maxEntryElevation rs w c = Num v)"
  using maxEntry_fold_not_NaN[of NegInfinity w c rs] by (simp add: maxEntryElevation_def)

lemma js_strict_ne_maxEntry:
  "js_strict_ne (maxEntryElevation rs w c) x = (maxEntryElevation rs w c \<noteq> x)"
  using maxEntryElevation_cases[of rs w c] by (auto simp: js_strict_ne_def)

text \<open>The loop, with the comparison of the two numbers written as an inequality.\<close>

lemma groundLoop_unfold:
  "groundLoop rs w iter m =
     (if maxEntryElevation rs w m \<noteq> m \<and> iter + 1 < MAX_ITER
      then groundLoop rs w (iter + 1) (maxEntryElevation rs w m)
      else (iter + 1, m))"
  by (subst groundLoop.simps) (simp add: Let_def js_strict_ne_maxEntry)

text \<open>
  If the iteration of \<open>maxEntryElevation\<close> first repeats a value after \<open>n\<close> steps, and
  the cap is not reached, the loop leaves with that value.
\<close>

lemma groundLoop_fixed:
  "\<forall>k<n. (maxEntryElevation rs w ^^ Suc k) m \<noteq> (maxEntryElevation rs w ^^ k) m \<Longrightarrow>
   (maxEntryElevation rs w ^^ Suc n) m = (maxEntryElevation rs w ^^ n) m \<Longrightarrow>
   iter + n < MAX_ITER \<Longrightarrow>
   groundLoop rs w iter m = (iter + n + 1, (maxEntryElevation rs w ^^ n) m)"
proof (induction n arbitrary: iter m)
  case 0
  then show ?case by (subst groundLoop_unfold) simp
next
  case (Suc n)
  let ?f = "maxEntryElevation rs w"
  from Suc.prems(1) have ne0: "?f m \<noteq> m" by (metis funpow_0 funpow.simps(2) o_apply zero_less_Suc)
  have step: "\<forall>k<n. (?f ^^ Suc k) (?f m) \<noteq> (?f ^^ k) (?f m)"
  proof (intro allI impI)
    fix k assume "k < n"
    then have "(?f ^^ Suc (Suc k)) m \<noteq> (?f ^^ Suc k) m"
      using Suc.prems(1)[rule_format, of "Suc k"] by simp
    then show "(?f ^^ Suc k) (?f m) \<noteq> (?f ^^ k) (?f m)"
      by (simp add: funpow_swap1)
  qed
  have fixd: "(?f ^^ Suc n) (?f m) = (?f ^^ n) (?f m)"
    using Suc.prems(2) by (simp add: funpow_swap1)
  have "groundLoop rs w (iter + 1) (?f m) = (iter + 1 + n + 1, (?f ^^ n) (?f m))"
    using Suc.IH[OF step fixd, of "iter + 1"] Suc.prems(3) by simp
  moreover have "groundLoop rs w iter m = groundLoop rs w (iter + 1) (?f m)"
    using ne0 Suc.prems(3) by (subst groundLoop_unfold) simp
  ultimately show ?case by (simp add: funpow_swap1)
qed

text \<open>If no value repeats before the cap, the loop leaves at the cap with the last value.\<close>

lemma groundLoop_cap:
  "\<forall>k. iter + k + 1 < MAX_ITER \<longrightarrow> (maxEntryElevation rs w ^^ Suc k) m \<noteq> (maxEntryElevation rs w ^^ k) m \<Longrightarrow>
   iter + d + 1 = MAX_ITER \<Longrightarrow>
   groundLoop rs w iter m = (MAX_ITER, (maxEntryElevation rs w ^^ d) m)"
proof (induction d arbitrary: iter m)
  case 0
  then show ?case by (subst groundLoop_unfold) simp
next
  case (Suc d)
  let ?f = "maxEntryElevation rs w"
  have ne0: "?f m \<noteq> m" using Suc.prems(1)[rule_format, of 0] Suc.prems(2) by simp
  have step: "\<forall>k. (iter + 1) + k + 1 < MAX_ITER \<longrightarrow> (?f ^^ Suc k) (?f m) \<noteq> (?f ^^ k) (?f m)"
  proof (intro allI impI)
    fix k assume "(iter + 1) + k + 1 < MAX_ITER"
    then have "(?f ^^ Suc (Suc k)) m \<noteq> (?f ^^ Suc k) m" using Suc.prems(1)[rule_format, of "Suc k"] by simp
    then show "(?f ^^ Suc k) (?f m) \<noteq> (?f ^^ k) (?f m)"
      by (simp add: funpow_swap1)
  qed
  have "groundLoop rs w (iter + 1) (?f m) = (MAX_ITER, (?f ^^ d) (?f m))"
    using Suc.IH[OF step] Suc.prems(2) by simp
  moreover have "groundLoop rs w iter m = groundLoop rs w (iter + 1) (?f m)"
    using ne0 Suc.prems(2) by (subst groundLoop_unfold) simp
  ultimately show ?case by (simp add: funpow_swap1)
qed

lemma elevationType_scan_result:
  "elevationType_scan rs w i = (i', off) \<Longrightarrow> \<not> off \<Longrightarrow>
   (\<forall>r\<in>set rs. testPoint r w (Num (elevation w)) \<longrightarrow> elevationUponEntry r w = elevation w)
   \<and> (i' = (i \<or> (\<exists>r\<in>set rs. testPoint r w (Num (elevation w)))))"
  by (induction rs arbitrary: i) (auto split: if_splits)

lemma elevationType_scan_inside:
  "elevationType_scan rs w i = (i', off) \<Longrightarrow> i \<Longrightarrow> i'"
  by (induction rs arbitrary: i) (auto split: if_splits)

lemma elevationType_scan_outside:
  "elevationType_scan rs w i = (False, off) \<Longrightarrow>
   \<forall>r\<in>set rs. \<not> testPoint r w (Num (elevation w))"
  by (induction rs arbitrary: i) (auto split: if_splits dest: elevationType_scan_inside)

lemma maxEntry_fold_same:
  "\<forall>r\<in>set rs. testPoint r w c \<longrightarrow> elevationUponEntry r w = e \<Longrightarrow>
   m = NegInfinity \<or> m = Num e \<Longrightarrow>
   foldl (\<lambda>m r. if testPoint r w c then js_max m (Num (elevationUponEntry r w)) else m) m rs
     = (if \<exists>r\<in>set rs. testPoint r w c then Num e else m)"
proof (induction rs arbitrary: m)
  case Nil
  then show ?case by simp
next
  case (Cons r rs)
  show ?case
  proof (cases "testPoint r w c")
    case True
    then have e: "elevationUponEntry r w = e" using Cons.prems(1) by simp
    have m': "js_max m (Num e) = Num e" using Cons.prems(2) by auto
    have "foldl (\<lambda>m r. if testPoint r w c then js_max m (Num (elevationUponEntry r w)) else m) (Num e) rs
          = (if \<exists>r\<in>set rs. testPoint r w c then Num e else Num e)"
      using Cons.IH[of "Num e"] Cons.prems(1) by simp
    then show ?thesis using True e m' by simp
  next
    case False
    then show ?thesis using Cons.IH[of m] Cons.prems by simp
  qed
qed

lemma maxEntryElevation_same:
  "\<forall>r\<in>set rs. testPoint r w c \<longrightarrow> elevationUponEntry r w = e \<Longrightarrow>
   \<exists>r\<in>set rs. testPoint r w c \<Longrightarrow> maxEntryElevation rs w c = Num e"
  using maxEntry_fold_same[of rs w c e NegInfinity] by (simp add: maxEntryElevation_def)

lemma filter_empty_iff: "(filter P xs = []) = (\<forall>x\<in>set xs. \<not> P x)"
  by (induction xs) auto

text \<open>
  C7. A point that \<open>elevationType\<close> classifies as \<open>GROUND\<close> keeps its elevation under
  \<open>nearestGroundElevation\<close> with the same regions, whatever the samples and the burrowing
  flag are, and nothing is logged.
\<close>

theorem ground_point_is_fixed:
  "elevationType sc w regions = GROUND \<Longrightarrow>
   nearestGroundElevation sc w regions samples burrowing = (Num (elevation w), [])"
proof -
  assume g: "elevationType sc w regions = GROUND"
  let ?rs = "elevatedRegions sc regions"
  obtain i off where scan: "elevationType_scan ?rs w False = (i, off)" by fastforce
  from g scan have cases: "(i \<and> \<not> off) \<or> (\<not> i \<and> elevation w = sceneFloor sc)"
    by (auto simp: elevationType_def split: if_splits)
  show ?thesis
  proof (cases i)
    case True
    with cases have noff: "\<not> off" by simp
    from elevationType_scan_result[OF scan noff] True
    have all: "\<forall>r\<in>set ?rs. testPoint r w (Num (elevation w)) \<longrightarrow> elevationUponEntry r w = elevation w"
      and ex: "\<exists>r\<in>set ?rs. testPoint r w (Num (elevation w))" by auto
    have ne: "filter (\<lambda>r. testPoint r w (Num (elevation w))) ?rs \<noteq> []"
      using ex by (simp add: filter_empty_iff)
    have mx: "maxEntryElevation ?rs w (Num (elevation w)) = Num (elevation w)"
      using maxEntryElevation_same[OF all ex] .
    have loop: "groundLoop ?rs w 0 (Num (elevation w)) = (1, Num (elevation w))"
      by (subst groundLoop_unfold) (simp add: mx)
    show ?thesis using ne loop
      by (simp add: nearestGroundElevation_def Let_def MAX_ITER_def)
  next
    case False
    with cases have fl: "elevation w = sceneFloor sc" by simp
    from scan False have "elevationType_scan ?rs w False = (False, off)" by simp
    then have "\<forall>r\<in>set ?rs. \<not> testPoint r w (Num (elevation w))"
      by (rule elevationType_scan_outside)
    then have emp: "filter (\<lambda>r. testPoint r w (Num (elevation w))) ?rs = []"
      by (simp add: filter_empty_iff)
    show ?thesis using emp fl
      by (simp add: nearestGroundElevation_def Let_def)
  qed
qed

theorem ground_point_is_fixed_witness:
  "elevationType exampleScene (wpAt 5 0 10) None = GROUND
   \<and> nearestGroundElevation exampleScene (wpAt 5 0 10) None None None = (Num 10, [])"
proof -
  have h: "elevationType exampleScene (wpAt 5 0 10) None = GROUND"
    by (simp add: elevationType_def elevatedRegions_def exampleScene_def plateau10_def
        exampleRegion_def wpAt_def)
  show ?thesis using h ground_point_is_fixed[OF h, of None None] by (simp add: wpAt_def)
qed

lemma burrowing_flag: "(case b of None \<Rightarrow> False | Some v \<Rightarrow> v) = (b = Some True)"
  by (cases b) auto

lemma nearestGroundElevation_inside:
  assumes "\<exists>r\<in>set (elevatedRegions sc ro). testPoint r w (Num (elevation w))"
  shows "nearestGroundElevation sc w ro so b =
     (if b = Some True then (Num (elevation w), [])
      else case groundLoop (elevatedRegions sc ro) w 0 (Num (elevation w)) of
             (iter, e) \<Rightarrow> (e, if MAX_ITER \<le> iter then [groundError] else []))"
proof -
  have ne: "filter (\<lambda>r. testPoint r w (Num (elevation w))) (elevatedRegions sc ro) \<noteq> []"
    using assms by (simp add: filter_empty_iff)
  show ?thesis using ne
    by (simp add: nearestGroundElevation_def Let_def burrowing_flag)
qed

lemma nearestGroundElevation_outside:
  assumes "\<forall>r\<in>set (elevatedRegions sc ro). \<not> testPoint r w (Num (elevation w))"
  shows "nearestGroundElevation sc w ro so b =
     (let entries = fallIntersections (elevatedRegions sc ro) w (sceneFloor sc)
                      (case so of None \<Rightarrow> [(0, 0)] | Some s \<Rightarrow> s)
      in if elevation w = sceneFloor sc \<or> entries = [] then (Num (sceneFloor sc), [])
         else let e1 = elevationUponEntry (fst (hd (sort_key snd entries))) w
              in if b = Some True then (Num e1, [])
                 else case groundLoop (elevatedRegions sc ro) w 0 (Num e1) of
                        (iter, e) \<Rightarrow> (e, if MAX_ITER \<le> iter then [groundError] else []))"
proof -
  have emp: "filter (\<lambda>r. testPoint r w (Num (elevation w))) (elevatedRegions sc ro) = []"
    using assms by (simp add: filter_empty_iff)
  have hd_case: "xs \<noteq> [] \<Longrightarrow> (case xs of [] \<Rightarrow> d | x # _ \<Rightarrow> f x) = f (hd xs)" for xs :: "'b list" and d :: 'c and f
    by (cases xs) auto
  have sne: "xs \<noteq> [] \<Longrightarrow> sort_key snd xs \<noteq> []" for xs :: "('a region \<times> real) list"
    by (metis length_sort length_0_conv)
  show ?thesis using emp
    by (auto simp: nearestGroundElevation_def Let_def burrowing_flag hd_case sne)
qed

lemma maxEntry_fold_spec:
  "m = NegInfinity \<or> (\<exists>v. m = Num v) \<Longrightarrow>
   foldl (\<lambda>m r. if testPoint r w c then js_max m (Num (elevationUponEntry r w)) else m) m rs
     = (if spec_containingEntries rs w c = [] then m
        else js_max m (Num (Max (set (spec_containingEntries rs w c)))))"
proof (induction rs arbitrary: m)
  case Nil
  then show ?case by (simp add: spec_containingEntries_def)
next
  case (Cons r rs)
  show ?case
  proof (cases "testPoint r w c")
    case False
    then show ?thesis using Cons.IH[OF Cons.prems] by (simp add: spec_containingEntries_def)
  next
    case True
    let ?x = "elevationUponEntry r w"
    let ?m = "js_max m (Num ?x)"
    have m': "?m = NegInfinity \<or> (\<exists>v. ?m = Num v)" using Cons.prems by auto
    have ce: "spec_containingEntries (r # rs) w c = ?x # spec_containingEntries rs w c"
      using True by (simp add: spec_containingEntries_def)
    show ?thesis
    proof (cases "spec_containingEntries rs w c = []")
      case e: True
      then show ?thesis using Cons.IH[OF m'] True ce by simp
    next
      case ne: False
      have mx: "Max (set (?x # spec_containingEntries rs w c)) = max ?x (Max (set (spec_containingEntries rs w c)))"
        using ne by simp
      have "js_max ?m (Num (Max (set (spec_containingEntries rs w c))))
              = js_max m (Num (max ?x (Max (set (spec_containingEntries rs w c)))))"
        using Cons.prems by (auto simp: max.assoc)
      then show ?thesis using Cons.IH[OF m'] True ce ne mx by simp
    qed
  qed
qed

lemma maxEntryElevation_spec:
  "maxEntryElevation regs w e = spec_maxEntryElevation regs w e"
  using maxEntry_fold_spec[of NegInfinity w e regs]
  by (simp add: maxEntryElevation_def spec_maxEntryElevation_def)

lemma spec_maxEntryElevation_fixed:
  "spec_maxEntryElevation regs w e = e \<Longrightarrow>
   (case e of
      Num v \<Rightarrow> (\<exists>r\<in>set regs. testPoint r w (Num v) \<and> elevationUponEntry r w = v)
               \<and> (\<forall>r\<in>set regs. testPoint r w (Num v) \<longrightarrow> elevationUponEntry r w \<le> v)
    | _ \<Rightarrow> \<forall>r\<in>set regs. \<not> testPoint r w e)"
proof -
  assume f: "spec_maxEntryElevation regs w e = e"
  let ?es = "spec_containingEntries regs w e"
  show ?thesis
  proof (cases "?es = []")
    case True
    then have "e = NegInfinity" using f by (simp add: spec_maxEntryElevation_def)
    moreover have "\<forall>r\<in>set regs. \<not> testPoint r w e"
      using True by (simp add: spec_containingEntries_def filter_empty_iff)
    ultimately show ?thesis by simp
  next
    case False
    then have e: "e = Num (Max (set ?es))" using f by (simp add: spec_maxEntryElevation_def)
    have fin: "finite (set ?es)" "set ?es \<noteq> {}" using False by simp_all
    have "Max (set ?es) \<in> set ?es" using Max_in[OF fin] .
    then have ex: "\<exists>r\<in>set regs. testPoint r w e \<and> elevationUponEntry r w = Max (set ?es)"
      by (auto simp: spec_containingEntries_def)
    have "\<forall>r\<in>set regs. testPoint r w e \<longrightarrow> elevationUponEntry r w \<le> Max (set ?es)"
    proof (intro ballI impI)
      fix r assume "r \<in> set regs" "testPoint r w e"
      then have "elevationUponEntry r w \<in> set ?es" by (auto simp: spec_containingEntries_def)
      then show "elevationUponEntry r w \<le> Max (set ?es)" using fin by simp
    qed
    then show ?thesis using ex e by (cases e) auto
  qed
qed

lemma spec_maxEntryElevation_highest:
  "R \<in> set regs \<Longrightarrow> testPoint R w c \<Longrightarrow>
   \<forall>r\<in>set regs. testPoint r w c \<longrightarrow> elevationUponEntry r w \<le> elevationUponEntry R w \<Longrightarrow>
   spec_maxEntryElevation regs w c = Num (elevationUponEntry R w)"
proof -
  assume R: "R \<in> set regs" and t: "testPoint R w c"
    and le: "\<forall>r\<in>set regs. testPoint r w c \<longrightarrow> elevationUponEntry r w \<le> elevationUponEntry R w"
  let ?es = "spec_containingEntries regs w c"
  have mem: "elevationUponEntry R w \<in> set ?es" using R t by (auto simp: spec_containingEntries_def)
  then have ne: "?es \<noteq> []" by auto
  have "\<forall>x\<in>set ?es. x \<le> elevationUponEntry R w" using le by (auto simp: spec_containingEntries_def)
  then have "Max (set ?es) = elevationUponEntry R w"
    using mem by (intro Max_eqI) auto
  then show ?thesis using ne by (simp add: spec_maxEntryElevation_def)
qed

lemma hd_sort_key_first_least:
  fixes f :: "'b \<Rightarrow> real"
  shows "xs \<noteq> [] \<Longrightarrow>
         \<exists>b y a. xs = b @ y # a \<and> hd (sort_key f xs) = y
                 \<and> (\<forall>x\<in>set b. f y < f x) \<and> (\<forall>x\<in>set a. f y \<le> f x)"
proof (induction xs)
  case Nil
  then show ?case by simp
next
  case (Cons x xs)
  show ?case
  proof (cases "xs = []")
    case True
    then have "x # xs = [] @ x # [] \<and> hd (sort_key f (x # xs)) = x" by simp
    then show ?thesis by (metis empty_iff list.set(1))
  next
    case False
    from Cons.IH[OF False] obtain b y a where d: "xs = b @ y # a" "hd (sort_key f xs) = y"
      "\<forall>z\<in>set b. f y < f z" "\<forall>z\<in>set a. f y \<le> f z" by blast
    obtain ys where ys: "sort_key f xs = y # ys"
      using d(2) False by (metis length_sort length_0_conv list.collapse)
    show ?thesis
    proof (cases "f x \<le> f y")
      case True
      have h: "hd (sort_key f (x # xs)) = x" using ys True by simp
      have "\<forall>z\<in>set xs. f x \<le> f z" using d True by fastforce
      then have "x # xs = [] @ x # xs \<and> hd (sort_key f (x # xs)) = x
                 \<and> (\<forall>z\<in>set []. f x < f z) \<and> (\<forall>z\<in>set xs. f x \<le> f z)"
        using h by simp
      then show ?thesis by blast
    next
      case F: False
      have h: "hd (sort_key f (x # xs)) = y" using ys F by simp
      have "x # xs = (x # b) @ y # a \<and> hd (sort_key f (x # xs)) = y
                 \<and> (\<forall>z\<in>set (x # b). f y < f z) \<and> (\<forall>z\<in>set a. f y \<le> f z)"
        using h d F by simp
      then show ?thesis by blast
    qed
  qed
qed

lemma fallIntersections_mem:
  "(r, d) \<in> set (fallIntersections rs w fl smp) =
     (r \<in> set rs \<and> (\<exists>s rest. segmentizeMovement r [w, w\<lparr>elevation := fl\<rparr>] smp = s # rest
                        \<and> seg_type s = ENTER \<and> d = toDouble (elevation w - elevation (seg_to s))))"
  by (induction rs) (auto split: list.splits)

lemma fallIntersections_split:
  "fallIntersections rs w fl smp = b @ (r, d) # a \<Longrightarrow>
   \<exists>rb ra. rs = rb @ r # ra \<and> fallIntersections rb w fl smp = b \<and> fallIntersections ra w fl smp = a"
proof (induction rs arbitrary: b)
  case Nil
  then show ?case by simp
next
  case (Cons x xs)
  show ?case
  proof (cases "fallIntersections (x # xs) w fl smp = fallIntersections xs w fl smp")
    case True
    with Cons.prems have "fallIntersections xs w fl smp = b @ (r, d) # a" by simp
    from Cons.IH[OF this] obtain rb ra where
      "xs = rb @ r # ra" "fallIntersections rb w fl smp = b" "fallIntersections ra w fl smp = a" by blast
    moreover have "fallIntersections (x # rb) w fl smp = fallIntersections rb w fl smp"
      using True by (auto split: list.splits if_splits)
    ultimately have "x # xs = (x # rb) @ r # ra \<and> fallIntersections (x # rb) w fl smp = b
                     \<and> fallIntersections ra w fl smp = a" by simp
    then show ?thesis by blast
  next
    case False
    then obtain dx where e: "\<And>ys. fallIntersections (x # ys) w fl smp = (x, dx) # fallIntersections ys w fl smp"
      by (auto split: list.splits if_splits)
    show ?thesis
    proof (cases b)
      case Nil
      then have "x = r" "fallIntersections xs w fl smp = a" using Cons.prems e[of xs] by simp_all
      then have "x # xs = [] @ r # xs \<and> fallIntersections [] w fl smp = b
                 \<and> fallIntersections xs w fl smp = a" using Nil by simp
      then show ?thesis by blast
    next
      case bc: (Cons hb tb)
      then have "fallIntersections xs w fl smp = tb @ (r, d) # a" and hb: "hb = (x, dx)"
        using Cons.prems e[of xs] by simp_all
      from Cons.IH[OF this(1)] obtain rb ra where
        "xs = rb @ r # ra" "fallIntersections rb w fl smp = tb" "fallIntersections ra w fl smp = a" by blast
      then have "x # xs = (x # rb) @ r # ra \<and> fallIntersections (x # rb) w fl smp = b
                 \<and> fallIntersections ra w fl smp = a" using e[of rb] hb bc by simp
      then show ?thesis by blast
    qed
  qed
qed






lemma stack_regs: "elevatedRegions stackScene None = [low4, plateau10, low4]"
  by (simp add: elevatedRegions_def stackScene_def low4_def plateau10_def exampleRegion_def)

lemma stack_falls:
  "segmentizeMovement low4 [wpAt 5 0 20, (wpAt 5 0 20)\<lparr>elevation := 0\<rparr>] [(0, 0)]
     = [\<lparr>seg_type = ENTER, seg_to = wpAt 5 0 4\<rparr>]"
  "segmentizeMovement plateau10 [wpAt 5 0 20, (wpAt 5 0 20)\<lparr>elevation := 0\<rparr>] [(0, 0)]
     = [\<lparr>seg_type = ENTER, seg_to = wpAt 5 0 10\<rparr>]"
  by (simp_all add: low4_def plateau10_def exampleRegion_def wpAt_def)

lemma stack_dists: "toDouble (20 - 4) = 16" "toDouble (20 - 10) = 10"
  by (simp_all add: toDouble_defs)


text \<open>
  C5. Without burrowing, for a waypoint inside some elevated region at its elevation:
  \<open>step\<close> replaces an elevation by the maximum entry elevation over the regions that
  contain the waypoint at that elevation. If the iteration of \<open>step\<close> from the
  waypoint's elevation first repeats a value after \<open>n\<close> steps, with \<open>n\<close> below the cap of
  10000, the result is that value. It is a fixed point of \<open>step\<close>: some region that
  contains the waypoint at the result enters at the result, and none that contains it
  there enters higher. In particular, if a region \<open>R\<close> (the ramp) contains the waypoint
  at its elevation and at \<open>R\<close>'s own entry elevation, and no region that contains the
  waypoint at either of the two elevations enters higher than \<open>R\<close> (the plateau's
  surface is lower), the result is \<open>R\<close>'s entry elevation and nothing is logged.
\<close>

theorem ground_resolver_fixed_point:
  "let regs = elevatedRegions sc regionsOpt;
       step = spec_maxEntryElevation regs w;
       e0 = Num (elevation w);
       result = nearestGroundElevation sc w regionsOpt samplesOpt burrowingOpt
   in burrowingOpt \<noteq> Some True \<and> (\<exists>r\<in>set regs. testPoint r w e0) \<longrightarrow>
        (\<forall>n<MAX_ITER.
           (step ^^ Suc n) e0 = (step ^^ n) e0 \<and> (\<forall>k<n. (step ^^ Suc k) e0 \<noteq> (step ^^ k) e0) \<longrightarrow>
           fst result = (step ^^ n) e0 \<and> step (fst result) = fst result
           \<and> (Suc n < MAX_ITER \<longrightarrow> snd result = [])
           \<and> (case fst result of
                 Num v \<Rightarrow> (\<exists>r\<in>set regs. testPoint r w (Num v) \<and> elevationUponEntry r w = v)
                          \<and> (\<forall>r\<in>set regs. testPoint r w (Num v) \<longrightarrow> elevationUponEntry r w \<le> v)
               | _ \<Rightarrow> \<forall>r\<in>set regs. \<not> testPoint r w (fst result)))
        \<and> (\<forall>R\<in>set regs.
              testPoint R w e0 \<and> testPoint R w (Num (elevationUponEntry R w))
              \<and> (\<forall>r\<in>set regs. testPoint r w e0 \<or> testPoint r w (Num (elevationUponEntry R w)) \<longrightarrow>
                     elevationUponEntry r w \<le> elevationUponEntry R w) \<longrightarrow>
              result = (Num (elevationUponEntry R w), []))"
proof -
  let ?regs = "elevatedRegions sc regionsOpt"
  let ?step = "spec_maxEntryElevation ?regs w"
  let ?e0 = "Num (elevation w)"
  let ?result = "nearestGroundElevation sc w regionsOpt samplesOpt burrowingOpt"
  have st: "maxEntryElevation ?regs w = ?step" by (rule ext) (rule maxEntryElevation_spec)
  {
    assume nb: "burrowingOpt \<noteq> Some True" and ins: "\<exists>r\<in>set ?regs. testPoint r w ?e0"
    have res: "?result = (case groundLoop ?regs w 0 ?e0 of
                 (iter, e) \<Rightarrow> (e, if MAX_ITER \<le> iter then [groundError] else []))"
      using nearestGroundElevation_inside[OF ins, of samplesOpt burrowingOpt] nb by simp
    have p1: "fst ?result = (?step ^^ n) ?e0 \<and> ?step (fst ?result) = fst ?result
           \<and> (Suc n < MAX_ITER \<longrightarrow> snd ?result = [])
           \<and> (case fst ?result of
                 Num v \<Rightarrow> (\<exists>r\<in>set ?regs. testPoint r w (Num v) \<and> elevationUponEntry r w = v)
                          \<and> (\<forall>r\<in>set ?regs. testPoint r w (Num v) \<longrightarrow> elevationUponEntry r w \<le> v)
               | _ \<Rightarrow> \<forall>r\<in>set ?regs. \<not> testPoint r w (fst ?result))"
      if "n < MAX_ITER" "(?step ^^ Suc n) ?e0 = (?step ^^ n) ?e0"
         "\<forall>k<n. (?step ^^ Suc k) ?e0 \<noteq> (?step ^^ k) ?e0" for n
    proof -
      have "groundLoop ?regs w 0 ?e0 = (0 + n + 1, (?step ^^ n) ?e0)"
        using groundLoop_fixed[of n ?regs w ?e0 0] that unfolding st by simp
      then have r: "?result = ((?step ^^ n) ?e0, if MAX_ITER \<le> n + 1 then [groundError] else [])"
        by (simp add: res)
      have fx: "?step (fst ?result) = fst ?result" using r that(2) by simp
      show ?thesis using r fx spec_maxEntryElevation_fixed[OF fx] by simp
    qed
    have p2: "?result = (Num (elevationUponEntry R w), [])"
      if "R \<in> set ?regs" "testPoint R w ?e0" "testPoint R w (Num (elevationUponEntry R w))"
         "\<forall>r\<in>set ?regs. testPoint r w ?e0 \<or> testPoint r w (Num (elevationUponEntry R w)) \<longrightarrow>
            elevationUponEntry r w \<le> elevationUponEntry R w" for R
    proof -
      let ?h = "Num (elevationUponEntry R w)"
      have s0: "maxEntryElevation ?regs w ?e0 = ?h"
        unfolding st using spec_maxEntryElevation_highest[OF that(1) that(2)] that(4) by blast
      have s1: "maxEntryElevation ?regs w ?h = ?h"
        unfolding st using spec_maxEntryElevation_highest[OF that(1) that(3)] that(4) by blast
      show ?thesis
      proof (cases "?h = ?e0")
        case True
        then have "groundLoop ?regs w 0 ?e0 = (1, ?e0)"
          using s0 by (subst groundLoop_unfold) simp
        then show ?thesis using True by (simp add: res MAX_ITER_def)
      next
        case False
        have "groundLoop ?regs w 0 ?e0 = groundLoop ?regs w 1 ?h"
          using s0 False by (subst groundLoop_unfold) (simp add: MAX_ITER_def)
        also have "\<dots> = (2, ?h)"
          using s1 by (subst groundLoop_unfold) simp
        finally show ?thesis by (simp add: res MAX_ITER_def)
      qed
    qed
    note p1 p2
  }
  then show ?thesis unfolding Let_def by blast
qed

theorem ground_resolver_fixed_point_witness:
  "(\<exists>r\<in>set (elevatedRegions rampScene None). testPoint r (wpAt 5 0 3) (Num 3))
   \<and> map (\<lambda>r. elevationUponEntry r (wpAt 5 0 3)) (elevatedRegions rampScene None) = [50, 10, 15]
   \<and> map (\<lambda>r. testPoint r (wpAt 5 0 3) (Num 3)) (elevatedRegions rampScene None) = [False, True, True]
   \<and> map (\<lambda>r. testPoint r (wpAt 5 0 3) (Num 15)) (elevatedRegions rampScene None) = [False, False, True]
   \<and> spec_maxEntryElevation (elevatedRegions rampScene None) (wpAt 5 0 3) (Num 3) = Num 15
   \<and> spec_maxEntryElevation (elevatedRegions rampScene None) (wpAt 5 0 3) (Num 15) = Num 15
   \<and> nearestGroundElevation rampScene (wpAt 5 0 3) None None None = (Num 15, [])"
proof -
  let ?regs = "elevatedRegions rampScene None"
  let ?w = "wpAt 5 0 3"
  let ?step = "spec_maxEntryElevation ?regs ?w"
  have regs: "?regs = [tower50, plateau10, ramp15]"
    by (simp add: elevatedRegions_def rampScene_def tower50_def plateau10_def ramp15_def exampleRegion_def)
  have en: "map (\<lambda>r. elevationUponEntry r ?w) ?regs = [50, 10, 15]"
    by (simp add: regs tower50_def plateau10_def ramp15_def exampleRegion_def)
  have t3: "map (\<lambda>r. testPoint r ?w (Num 3)) ?regs = [False, True, True]"
    by (simp add: regs tower50_def plateau10_def ramp15_def exampleRegion_def)
  have t15: "map (\<lambda>r. testPoint r ?w (Num 15)) ?regs = [False, False, True]"
    by (simp add: regs tower50_def plateau10_def ramp15_def exampleRegion_def)
  have ins: "\<exists>r\<in>set ?regs. testPoint r ?w (Num 3)"
    by (simp add: regs plateau10_def exampleRegion_def)
  have s0: "?step (Num 3) = Num 15"
    by (simp add: regs spec_maxEntryElevation_def spec_containingEntries_def tower50_def plateau10_def
        ramp15_def exampleRegion_def)
  have s1: "?step (Num 15) = Num 15"
    by (simp add: regs spec_maxEntryElevation_def spec_containingEntries_def tower50_def plateau10_def
        ramp15_def exampleRegion_def)
  have first: "(?step ^^ Suc (Suc 0)) (Num 3) = (?step ^^ Suc 0) (Num 3)
               \<and> (\<forall>k<Suc 0. (?step ^^ Suc k) (Num 3) \<noteq> (?step ^^ k) (Num 3))"
    using s0 s1 by simp
  note t = ground_resolver_fixed_point[where sc = rampScene and regionsOpt = None
      and w = ?w and samplesOpt = None and burrowingOpt = None, unfolded Let_def]
  have el: "elevation ?w = 3" by simp
  from t ins have both:
    "(\<forall>n<MAX_ITER.
           (?step ^^ Suc n) (Num 3) = (?step ^^ n) (Num 3) \<and> (\<forall>k<n. (?step ^^ Suc k) (Num 3) \<noteq> (?step ^^ k) (Num 3)) \<longrightarrow>
           fst (nearestGroundElevation rampScene ?w None None None) = (?step ^^ n) (Num 3)
           \<and> (Suc n < MAX_ITER \<longrightarrow> snd (nearestGroundElevation rampScene ?w None None None) = []))"
    unfolding el by blast
  have "Suc 0 < MAX_ITER" "Suc (Suc 0) < MAX_ITER" by (simp_all add: MAX_ITER_def)
  with both[rule_format, of "Suc 0"] first
  have "fst (nearestGroundElevation rampScene ?w None None None) = (?step ^^ Suc 0) (Num 3)
        \<and> snd (nearestGroundElevation rampScene ?w None None None) = []"
    by blast
  then have r: "nearestGroundElevation rampScene ?w None None None = (Num 15, [])"
    using s0 by (simp add: prod_eq_iff)
  from t ins have highest:
    "\<forall>R\<in>set ?regs.
        testPoint R ?w (Num 3) \<and> testPoint R ?w (Num (elevationUponEntry R ?w))
        \<and> (\<forall>r\<in>set ?regs. testPoint r ?w (Num 3) \<or> testPoint r ?w (Num (elevationUponEntry R ?w)) \<longrightarrow>
               elevationUponEntry r ?w \<le> elevationUponEntry R ?w) \<longrightarrow>
        nearestGroundElevation rampScene ?w None None None = (Num (elevationUponEntry R ?w), [])"
    unfolding el by blast
  have r': "nearestGroundElevation rampScene ?w None None None = (Num (elevationUponEntry ramp15 ?w), [])"
    by (rule highest[rule_format, of ramp15])
       (simp_all add: regs tower50_def plateau10_def ramp15_def exampleRegion_def)
  show ?thesis using ins en t3 t15 s0 s1 r r' by blast
qed

section \<open>Properties of the path tracer and the coordinate mapper\<close>

lemma elevatedRegions_idem:
  "elevatedRegions sc (Some (elevatedRegions sc ro)) = elevatedRegions sc ro"
  by (simp add: elevatedRegions_def)

lemma elevationType_regions:
  "elevationType sc w (Some (elevatedRegions sc ro)) = elevationType sc w ro"
  by (simp add: elevationType_def elevatedRegions_idem)

lemma nearestGroundElevation_regions:
  "nearestGroundElevation sc w (Some (elevatedRegions sc ro)) so b = nearestGroundElevation sc w ro so b"
  by (simp add: nearestGroundElevation_def elevatedRegions_idem)

lemma regions2dCutaway_empty:
  "fst (regions2dCutaway g sc s e rs) = [] \<Longrightarrow> regions2dCutaway g sc s e rs = ([], [])"
  by (auto simp: regions2dCutaway_def Let_def split: if_splits)

lemma constructRegionsPath_short:
  "regionWaypointsEqual start end' \<or> (flying = Some True \<and> burrowing = Some True)
     \<or> elevatedRegions sc regionsOpt = [] \<Longrightarrow>
   constructRegionsPath g sc start end' regionsOpt flying burrowing samples
     = Inr ([toPathpoint start, toPathpoint end'], [])"
  by (auto simp: constructRegionsPath_def Let_def)

text \<open>
  C4. \<open>constructRegionsPath\<close> returns exactly \<open>[start, end]\<close>, and logs nothing, in each
  short-circuit case: start equals end in position and elevation; flying and burrowing
  are both true; there is no elevated region; the cutaway, which is built once the two
  positions are known to differ, has no polygon.
\<close>

theorem short_circuits:
  "(regionWaypointsEqual start end' \<longrightarrow>
      constructRegionsPath g sc start end' regionsOpt flying burrowing samples
        = Inr ([toPathpoint start, toPathpoint end'], []))
   \<and> (flying = Some True \<and> burrowing = Some True \<longrightarrow>
      constructRegionsPath g sc start end' regionsOpt flying burrowing samples
        = Inr ([toPathpoint start, toPathpoint end'], []))
   \<and> (elevatedRegions sc regionsOpt = [] \<longrightarrow>
      constructRegionsPath g sc start end' regionsOpt flying burrowing samples
        = Inr ([toPathpoint start, toPathpoint end'], []))
   \<and> (\<not> regionWaypointsXYEqual start end'
        \<and> fst (regions2dCutaway g sc start end' (elevatedRegions sc regionsOpt)) = [] \<longrightarrow>
      constructRegionsPath g sc start end' regionsOpt flying burrowing samples
        = Inr ([toPathpoint start, toPathpoint end'], []))"
proof -
  have d: "constructRegionsPath g sc start end' regionsOpt flying burrowing samples
        = Inr ([toPathpoint start, toPathpoint end'], [])"
    if "\<not> regionWaypointsXYEqual start end'"
       "fst (regions2dCutaway g sc start end' (elevatedRegions sc regionsOpt)) = []"
  proof -
    have "tracePath g sc start end' (elevatedRegions sc regionsOpt) flying burrowing t
            = Inr ([toPathpoint start, toPathpoint end'], [])" for t
      using regions2dCutaway_empty[OF that(2)] by (simp add: tracePath_def)
    then show ?thesis using that(1)
      by (simp add: constructRegionsPath_def Let_def)
  qed
  show ?thesis using d by (simp add: constructRegionsPath_def Let_def)
qed

theorem short_circuits_witness:
  "regionWaypointsEqual (wpAt 1 2 3) (wpAt 1 2 3)
   \<and> constructRegionsPath exampleGeometry exampleScene (wpAt 1 2 3) (wpAt 1 2 3) None None None None
       = Inr ([toPathpoint (wpAt 1 2 3), toPathpoint (wpAt 1 2 3)], [])
   \<and> constructRegionsPath exampleGeometry exampleScene (wpAt 0 0 0) (wpAt 10 0 0) None (Some True) (Some True) None
       = Inr ([toPathpoint (wpAt 0 0 0), toPathpoint (wpAt 10 0 0)], [])
   \<and> elevatedRegions exampleScene (Some []) = []
   \<and> constructRegionsPath exampleGeometry exampleScene (wpAt 0 0 0) (wpAt 10 0 0) (Some []) None None None
       = Inr ([toPathpoint (wpAt 0 0 0), toPathpoint (wpAt 10 0 0)], [])
   \<and> \<not> regionWaypointsXYEqual (wpAt 0 0 0) (wpAt 10 0 0)
   \<and> fst (regions2dCutaway exampleGeometry deepScene (wpAt 0 0 0) (wpAt 10 0 0) (elevatedRegions deepScene None)) = []
   \<and> constructRegionsPath exampleGeometry deepScene (wpAt 0 0 0) (wpAt 10 0 0) None None None None
       = Inr ([toPathpoint (wpAt 0 0 0), toPathpoint (wpAt 10 0 0)], [])"
proof -
  have h1: "regionWaypointsEqual (wpAt 1 2 3) (wpAt 1 2 3)" by (simp add: regionWaypointsEqual_def)
  have h3: "elevatedRegions exampleScene (Some []) = []" by (simp add: elevatedRegions_def)
  have h4a: "\<not> regionWaypointsXYEqual (wpAt 0 0 0) (wpAt 10 0 0)"
    by (simp add: regionWaypointsXYEqual_def wpAt_def)
  have h4b: "fst (regions2dCutaway exampleGeometry deepScene (wpAt 0 0 0) (wpAt 10 0 0) (elevatedRegions deepScene None)) = []"
    by (simp add: regions2dCutaway_def Let_def elevatedRegions_def deepScene_def plateau10_def
        exampleRegion_def exampleGeometry_def MIN_ELEV_def List.map_filter_def)
  show ?thesis
    using h1 h3 h4a h4b
      short_circuits[of "wpAt 1 2 3" "wpAt 1 2 3" exampleGeometry exampleScene None None None None]
      short_circuits[of "wpAt 0 0 0" "wpAt 10 0 0" exampleGeometry exampleScene None "Some True" "Some True" None]
      short_circuits[of "wpAt 0 0 0" "wpAt 10 0 0" exampleGeometry exampleScene "Some []" None None None]
      short_circuits[of "wpAt 0 0 0" "wpAt 10 0 0" exampleGeometry deepScene None None None None]
    by simp
qed


text \<open>
  C3, as stated, fails where there is no elevated region: a move straight up to a floating
  end, not flying, returns the end unchanged, although the nearest ground is the scene
  floor.
\<close>

theorem elevation_only_move_counterexample:
  "regionWaypointsXYEqual (wpAt 0 0 0) (wpAt 0 0 10)
   \<and> elevation (wpAt 0 0 0) \<noteq> elevation (wpAt 0 0 10)
   \<and> elevationType exampleScene (wpAt 0 0 10) (Some []) = FLOATING
   \<and> nearestGroundElevation exampleScene (wpAt 0 0 10) (Some []) None None = (Num 0, [])
   \<and> constructRegionsPath exampleGeometry exampleScene (wpAt 0 0 0) (wpAt 0 0 10) (Some [])
        (Some False) None None
       = Inr ([toPathpoint (wpAt 0 0 0), toPathpoint (wpAt 0 0 10)], [])
   \<and> pelevation (toPathpoint (wpAt 0 0 10)) \<noteq> Num 0"
  by (simp add: regionWaypointsXYEqual_def regionWaypointsEqual_def wpAt_def elevationType_def
      elevatedRegions_def exampleScene_def nearestGroundElevation_def constructRegionsPath_def
      toPathpoint_def Let_def)

text \<open>
  C3, amended. For start and end with equal 2D position and different elevation, and at
  least one elevated region, the path is \<open>[start, end']\<close> where \<open>end'\<close> has the \<open>x\<close> of the
  end; \<open>end'.elevation\<close> is the result of \<open>nearestGroundElevation\<close> when (flying is false
  and the end is \<open>FLOATING\<close>) or (burrowing is false and the end is \<open>UNDERGROUND\<close>), and
  otherwise \<open>end'\<close> is the end unchanged.
\<close>

theorem elevation_only_move:
  "regionWaypointsXYEqual start end' \<Longrightarrow> elevation start \<noteq> elevation end' \<Longrightarrow>
   elevatedRegions sc regionsOpt \<noteq> [] \<Longrightarrow>
   (let endType = elevationType sc end' regionsOpt;
        snap = ((flying = Some False \<and> endType = FLOATING)
                \<or> (burrowing = Some False \<and> endType = UNDERGROUND))
    in \<exists>e' log.
         constructRegionsPath g sc start end' regionsOpt flying burrowing samples
           = Inr ([toPathpoint start, e'], log)
         \<and> px e' = Num (wx end')
         \<and> (snap \<longrightarrow> pelevation e' = fst (nearestGroundElevation sc end' regionsOpt samples burrowing))
         \<and> (\<not> snap \<longrightarrow> e' = toPathpoint end'))"
proof -
  assume xy: "regionWaypointsXYEqual start end'" and ne: "elevation start \<noteq> elevation end'"
    and regs: "elevatedRegions sc regionsOpt \<noteq> []"
  have neq: "\<not> regionWaypointsEqual start end'"
    using ne by (simp add: regionWaypointsEqual_def)
  show ?thesis
  proof (cases "flying = Some True \<and> burrowing = Some True")
    case True
    then show ?thesis
      by (simp add: constructRegionsPath_def Let_def toPathpoint_def)
  next
    case False
    then show ?thesis using xy neq regs
      by (auto simp: constructRegionsPath_def Let_def toPathpoint_def elevationType_regions
          nearestGroundElevation_regions split: prod.splits)
  qed
qed

theorem elevation_only_move_witness:
  "regionWaypointsXYEqual (wpAt 0 0 0) (wpAt 0 0 20)
   \<and> elevation (wpAt 0 0 0) \<noteq> elevation (wpAt 0 0 20)
   \<and> elevatedRegions exampleScene None \<noteq> []
   \<and> elevationType exampleScene (wpAt 0 0 20) None = FLOATING
   \<and> nearestGroundElevation exampleScene (wpAt 0 0 20) None None None = (Num 0, [])
   \<and> (\<exists>e'. constructRegionsPath exampleGeometry exampleScene (wpAt 0 0 0) (wpAt 0 0 20) None
              (Some False) None None = Inr ([toPathpoint (wpAt 0 0 0), e'], [])
           \<and> px e' = Num 0 \<and> pelevation e' = Num 0)
   \<and> constructRegionsPath exampleGeometry exampleScene (wpAt 0 0 0) (wpAt 0 0 20) None
              None None None = Inr ([toPathpoint (wpAt 0 0 0), toPathpoint (wpAt 0 0 20)], [])"
proof -
  have h1: "regionWaypointsXYEqual (wpAt 0 0 0) (wpAt 0 0 20)"
    by (simp add: regionWaypointsXYEqual_def wpAt_def)
  have h2: "elevation (wpAt 0 0 0) \<noteq> elevation (wpAt 0 0 20)" by (simp add: wpAt_def)
  have h3: "elevatedRegions exampleScene None \<noteq> []"
    by (simp add: elevatedRegions_def exampleScene_def plateau10_def exampleRegion_def)
  have t: "elevationType exampleScene (wpAt 0 0 20) None = FLOATING"
    by (simp add: elevationType_def elevatedRegions_def exampleScene_def plateau10_def
        exampleRegion_def wpAt_def)
  have n: "nearestGroundElevation exampleScene (wpAt 0 0 20) None None None = (Num 0, [])"
    by (simp add: nearestGroundElevation_def elevatedRegions_def exampleScene_def plateau10_def
        exampleRegion_def wpAt_def Let_def)
  from elevation_only_move[OF h1 h2 h3, of "Some False" None exampleGeometry None]
  have a: "\<exists>e' log. constructRegionsPath exampleGeometry exampleScene (wpAt 0 0 0) (wpAt 0 0 20) None
              (Some False) None None = Inr ([toPathpoint (wpAt 0 0 0), e'], log)
           \<and> px e' = Num 0 \<and> pelevation e' = Num 0"
    by (simp add: t n Let_def)
  from elevation_only_move[OF h1 h2 h3, of None None exampleGeometry None]
  have b: "\<exists>log. constructRegionsPath exampleGeometry exampleScene (wpAt 0 0 0) (wpAt 0 0 20) None
              None None None = Inr ([toPathpoint (wpAt 0 0 0), toPathpoint (wpAt 0 0 20)], log)"
    by (simp add: t Let_def)
  have a': "\<exists>e'. constructRegionsPath exampleGeometry exampleScene (wpAt 0 0 0) (wpAt 0 0 20) None
              (Some False) None None = Inr ([toPathpoint (wpAt 0 0 0), e'], [])
           \<and> px e' = Num 0 \<and> pelevation e' = Num 0"
    using a h1 h3 t n
    by (auto simp: constructRegionsPath_def Let_def regionWaypointsEqual_def wpAt_def
        elevationType_regions nearestGroundElevation_regions)
  have b': "constructRegionsPath exampleGeometry exampleScene (wpAt 0 0 0) (wpAt 0 0 20) None
              None None None = Inr ([toPathpoint (wpAt 0 0 0), toPathpoint (wpAt 0 0 20)], [])"
    using b h1 h3 t
    by (auto simp: constructRegionsPath_def Let_def regionWaypointsEqual_def wpAt_def
        elevationType_regions)
  show ?thesis using h1 h2 h3 t n a' b' by blast
qed

lemma distanceBetween_on_ray:
  assumes "0 \<le> s" "fst p = fst a + s * (fst b - fst a)" "snd p = snd a + s * (snd b - snd a)"
  shows "distanceBetween a p = s * sqrt ((fst b - fst a)\<^sup>2 + (snd b - snd a)\<^sup>2)"
proof -
  have "(fst p - fst a)\<^sup>2 + (snd p - snd a)\<^sup>2 = s\<^sup>2 * ((fst b - fst a)\<^sup>2 + (snd b - snd a)\<^sup>2)"
    using assms(2,3) by (simp add: power_mult_distrib distrib_left)
  then have "distanceBetween a p = sqrt (s\<^sup>2 * ((fst b - fst a)\<^sup>2 + (snd b - snd a)\<^sup>2))"
    by (simp add: distanceBetween_def)
  also have "\<dots> = s * sqrt ((fst b - fst a)\<^sup>2 + (snd b - snd a)\<^sup>2)"
    using assms(1) by (simp add: real_sqrt_mult)
  finally show ?thesis .
qed

lemma magnitude_zero_iff:
  "(sqrt ((fst b - fst a)\<^sup>2 + (snd b - snd a)\<^sup>2) = 0) = (a = b)" for a b :: point
  by (auto simp: prod_eq_iff)

text \<open>
  C8. For every point \<open>p\<close> on the segment from start to end (\<open>p = start + s (end - start)\<close>
  with \<open>0 \<le> s \<le> 1\<close>, at any elevation),
  \<open>_from2dCutawayCoordinate(_to2dCutawayCoordinate(p, start), start, end)\<close> is \<open>p\<close>: the
  same position and the same elevation.
\<close>

theorem cutaway_round_trip:
  "0 \<le> s \<Longrightarrow> s \<le> 1 \<Longrightarrow>
   wx p = wx start + s * (wx end' - wx start) \<Longrightarrow>
   wy p = wy start + s * (wy end' - wy start) \<Longrightarrow>
   from2dCutawayCoordinate (to2dCutawayCoordinate p start) start end' = toPathpoint p"
proof -
  assume s0: "0 \<le> s" and s1: "s \<le> 1"
    and px: "wx p = wx start + s * (wx end' - wx start)"
    and py: "wy p = wy start + s * (wy end' - wy start)"
  let ?m = "sqrt ((wx end' - wx start)\<^sup>2 + (wy end' - wy start)\<^sup>2)"
  have d: "distanceBetween (xy start) (xy p) = s * ?m"
    using distanceBetween_on_ray[of s "xy p" "xy start" "xy end'"] s0 px py by (simp add: xy_def)
  have "towardsPoint (xy start) (xy end') (s * ?m) = (wx p, wy p)"
  proof (cases "?m = 0")
    case True
    then have "xy end' = xy start" using magnitude_zero_iff[of "xy end'" "xy start"]
      by (auto simp: xy_def)
    then show ?thesis using px py by (simp add: towardsPoint_def Let_def xy_def)
  next
    case False
    then show ?thesis using px py by (simp add: towardsPoint_def Let_def xy_def)
  qed
  then show ?thesis
    by (simp add: from2dCutawayCoordinate_def to2dCutawayCoordinate_def d toPathpoint_def Let_def)
qed

theorem cutaway_round_trip_witness:
  "(0::real) \<le> 1/2 \<and> (1/2::real) \<le> 1
   \<and> wx (wpAt 3 4 7) = wx (wpAt 0 0 0) + 1/2 * (wx (wpAt 6 8 20) - wx (wpAt 0 0 0))
   \<and> wy (wpAt 3 4 7) = wy (wpAt 0 0 0) + 1/2 * (wy (wpAt 6 8 20) - wy (wpAt 0 0 0))
   \<and> to2dCutawayCoordinate (wpAt 3 4 7) (wpAt 0 0 0) = (5, 7)
   \<and> from2dCutawayCoordinate (to2dCutawayCoordinate (wpAt 3 4 7) (wpAt 0 0 0)) (wpAt 0 0 0) (wpAt 6 8 20)
       = toPathpoint (wpAt 3 4 7)"
proof -
  have "from2dCutawayCoordinate (to2dCutawayCoordinate (wpAt 3 4 7) (wpAt 0 0 0)) (wpAt 0 0 0) (wpAt 6 8 20)
       = toPathpoint (wpAt 3 4 7)"
    using cutaway_round_trip[where s = "1/2" and p = "wpAt 3 4 7" and start = "wpAt 0 0 0"
        and end' = "wpAt 6 8 20"]
    by simp
  moreover have "to2dCutawayCoordinate (wpAt 3 4 7) (wpAt 0 0 0) = (5, 7)"
  proof -
    have "sqrt (25::real) = 5" by (rule real_sqrt_unique) simp_all
    then show ?thesis
      by (simp add: to2dCutawayCoordinate_def distanceBetween_def xy_def wpAt_def)
  qed
  ultimately show ?thesis by (simp add: wpAt_def)
qed

lemma cycleToNextPoint_waypoints [simp]:
  "waypoints (cycleToNextPoint g poly ce r idx wps refs) = wps"
  "waypointRefs (cycleToNextPoint g poly ce r idx wps refs) = refs"
  "positionRef (cycleToNextPoint g poly ce r idx wps refs) = r"
  by (simp_all add: cycleToNextPoint_def Let_def)

lemma cycleToNextPoint_endRef [simp]:
  "endRef (cycleToNextPoint g poly ce r idx wps refs) \<noteq> Start2d"
  by (simp add: cycleToNextPoint_def Let_def)

lemma moveToPolygon_waypoints:
  "moveToPolygon g c pos ce r idx wps refs = Inr out \<Longrightarrow>
   \<exists>st' ys. out = Continue st' \<and> waypoints st' = wps @ ys"
  by (auto simp: moveToPolygon_def Let_def split: sum.splits list.splits option.splits if_splits)

lemma moveToPolygon_refs:
  "moveToPolygon g c pos ce r idx wps refs = Inr out \<Longrightarrow> r \<noteq> Start2d \<Longrightarrow>
   \<exists>st' rs. out = Continue st' \<and> waypointRefs st' = refs @ rs \<and> Start2d \<notin> set rs
     \<and> positionRef st' \<noteq> Start2d \<and> endRef st' \<noteq> Start2d
     \<and> (length refs = length wps \<longrightarrow> length (waypointRefs st') = length (waypoints st'))"
  by (auto simp: moveToPolygon_def Let_def split: sum.splits list.splits option.splits if_splits)

lemma redirectEnd_ref:
  "r \<noteq> Start2d \<Longrightarrow> fst (snd (redirectEnd c n pos ce r cp)) \<noteq> Start2d"
  by (auto simp: redirectEnd_def Let_def split: if_splits)

lemma marchBody_Break:
  "marchBody g c st = Inr (Break st') \<Longrightarrow>
   waypoints st' = waypoints st @ [currPosition st] \<and> fst (c_end2d c) \<le> fst (currPosition st)"
  by (auto simp: marchBody_def Let_def split: option.splits prod.splits if_splits
      dest!: moveToPolygon_waypoints)

lemma marchBody_Continue:
  "marchBody g c st = Inr (Continue st') \<Longrightarrow>
   \<exists>ys. waypoints st' = waypoints st @ currPosition st # ys"
  by (auto simp: marchBody_def Let_def split: option.splits prod.splits if_splits
      dest!: moveToPolygon_waypoints)

lemma marchBody_refs:
  assumes "marchBody g c st = Inr out" "endRef st \<noteq> Start2d"
  shows "\<exists>rs. waypointRefs (outcomeState out) = waypointRefs st @ positionRef st # rs
           \<and> Start2d \<notin> set rs \<and> endRef (outcomeState out) \<noteq> Start2d
           \<and> (\<forall>s. out = Continue s \<longrightarrow> positionRef s \<noteq> Start2d)
           \<and> (length (waypointRefs st) = length (waypoints st) \<longrightarrow>
                length (waypointRefs (outcomeState out)) = length (waypoints (outcomeState out)))"
proof -
  from assms(1) obtain ce0 where ce0: "currEnd st = Some ce0"
    by (auto simp: marchBody_def Let_def split: option.splits)
  let ?wps = "waypoints st @ [currPosition st]"
  let ?refs = "waypointRefs st @ [positionRef st]"
  obtain ce r cp where red: "redirectEnd c (length ?wps) (currPosition st) ce0 (endRef st) (currPoly st) = (ce, r, cp)"
    by (metis prod_cases3)
  have r: "r \<noteq> Start2d"
    using redirectEnd_ref[OF assms(2), of c "length ?wps" "currPosition st" ce0 "currPoly st"] red
    by simp
  consider (brk) "out = Break (st\<lparr>currEnd := Some ce, currPoly := cp, waypoints := ?wps,
                                      endRef := r, waypointRefs := ?refs\<rparr>)"
    | (los) "out = Continue \<lparr>currPosition = ce, currEnd = Some ce, currPoly = None,
                                    currPolyIndex = currPolyIndex st, waypoints = ?wps,
                                    positionRef = r, endRef = r, waypointRefs = ?refs\<rparr>"
    | (mv) "cp = None" "moveToPolygon g c (currPosition st) ce r (currPolyIndex st) ?wps ?refs = Inr out"
    | (cyc) poly where "out = Continue (cycleToNextPoint g poly ce r (currPolyIndex st) ?wps ?refs)"
    using assms(1) ce0 red
    by (auto simp: marchBody_def Let_def split: if_splits option.splits)
  then show ?thesis
  proof cases
    case brk
    then show ?thesis using r by simp
  next
    case los
    then show ?thesis using r by simp
  next
    case mv
    from moveToPolygon_refs[OF mv(2) r] obtain st' rs where
      "out = Continue st'" "waypointRefs st' = ?refs @ rs" "Start2d \<notin> set rs"
      "positionRef st' \<noteq> Start2d" "endRef st' \<noteq> Start2d"
      "length ?refs = length ?wps \<longrightarrow> length (waypointRefs st') = length (waypoints st')"
      by blast
    then show ?thesis by simp
  next
    case cyc
    then show ?thesis using r by simp
  qed
qed

lemma march_unfold:
  "march g c iter st =
     (if iter < MAX_ITER
      then (case marchBody g c st of
              Inl e \<Rightarrow> Inl e
            | Inr (Break st') \<Rightarrow> Inr (iter + 1, st')
            | Inr (Continue st') \<Rightarrow> march g c (iter + 1) st')
      else Inr (iter, st))"
  by (rule march.simps)

lemma march_waypoints:
  "march g c iter st = Inr (n, st') \<Longrightarrow> iter < MAX_ITER \<Longrightarrow>
   \<exists>ys. waypoints st' = waypoints st @ currPosition st # ys"
proof (induction g c iter st rule: march.induct)
  case (1 g c iter st)
  from "1.prems" obtain out where body: "marchBody g c st = Inr out"
    by (subst (asm) march_unfold) (auto split: sum.splits)
  show ?case
  proof (cases out)
    case (Break s1)
    with body "1.prems" have "st' = s1"
      by (subst (asm) march_unfold) simp
    then show ?thesis using marchBody_Break[of g c st s1] body Break by simp
  next
    case (Continue s1)
    with body "1.prems" have rec: "march g c (iter + 1) s1 = Inr (n, st')"
      by (subst (asm) march_unfold) simp
    from marchBody_Continue[of g c st s1] body Continue
    obtain ys where ys: "waypoints s1 = waypoints st @ currPosition st # ys" by auto
    show ?thesis
    proof (cases "iter + 1 < MAX_ITER")
      case True
      from "1.IH"[OF "1.prems"(2) body Continue rec True]
      obtain zs where "waypoints st' = waypoints s1 @ currPosition s1 # zs" by auto
      then show ?thesis using ys by simp
    next
      case False
      then have "st' = s1" using rec by (subst (asm) march_unfold) simp
      then show ?thesis using ys by simp
    qed
  qed
qed

lemma march_refs:
  "march g c iter st = Inr (n, st') \<Longrightarrow> iter < MAX_ITER \<Longrightarrow> endRef st \<noteq> Start2d \<Longrightarrow>
   \<exists>rs. waypointRefs st' = waypointRefs st @ positionRef st # rs
        \<and> (positionRef st \<noteq> Start2d \<longrightarrow> Start2d \<notin> set (positionRef st # rs))
        \<and> Start2d \<notin> set rs
        \<and> (length (waypointRefs st) = length (waypoints st) \<longrightarrow>
             length (waypointRefs st') = length (waypoints st'))"
proof (induction g c iter st rule: march.induct)
  case (1 g c iter st)
  from "1.prems" obtain out where body: "marchBody g c st = Inr out"
    by (subst (asm) march_unfold) (auto split: sum.splits)
  from marchBody_refs[OF body "1.prems"(3)] obtain rs where
    rs: "waypointRefs (outcomeState out) = waypointRefs st @ positionRef st # rs"
      "Start2d \<notin> set rs" "endRef (outcomeState out) \<noteq> Start2d"
      "\<forall>s. out = Continue s \<longrightarrow> positionRef s \<noteq> Start2d"
      "length (waypointRefs st) = length (waypoints st) \<longrightarrow>
         length (waypointRefs (outcomeState out)) = length (waypoints (outcomeState out))"
    by blast
  show ?case
  proof (cases out)
    case (Break s1)
    with body "1.prems" have "st' = s1"
      by (subst (asm) march_unfold) simp
    then show ?thesis using rs Break by auto
  next
    case (Continue s1)
    with body "1.prems" have rec: "march g c (iter + 1) s1 = Inr (n, st')"
      by (subst (asm) march_unfold) simp
    have s1: "endRef s1 \<noteq> Start2d" "positionRef s1 \<noteq> Start2d"
      using rs Continue by auto
    show ?thesis
    proof (cases "iter + 1 < MAX_ITER")
      case True
      from "1.IH"[OF "1.prems"(2) body Continue rec True s1(1)] s1(2)
      obtain zs where zs: "waypointRefs st' = waypointRefs s1 @ positionRef s1 # zs"
        "Start2d \<notin> set (positionRef s1 # zs)"
        "length (waypointRefs s1) = length (waypoints s1) \<longrightarrow>
           length (waypointRefs st') = length (waypoints st')"
        by blast
      have "waypointRefs st' = waypointRefs st @ positionRef st # (rs @ positionRef s1 # zs)"
        using zs(1) rs(1) Continue by simp
      moreover have "Start2d \<notin> set (rs @ positionRef s1 # zs)" using rs(2) zs(2) by simp
      ultimately show ?thesis using zs(3) rs(5) Continue by auto
    next
      case False
      then have "st' = s1" using rec by (subst (asm) march_unfold) simp
      then show ?thesis using rs Continue by auto
    qed
  qed
qed

lemma march_single:
  assumes "march g c iter st = Inr (n, st')" "iter + 1 < MAX_ITER"
    "waypoints st' = waypoints st @ [currPosition st]"
  shows "fst (c_end2d c) \<le> fst (currPosition st)"
proof -
  from assms(1,2) obtain out where body: "marchBody g c st = Inr out"
    by (subst (asm) march_unfold) (auto split: sum.splits)
  show ?thesis
  proof (cases out)
    case (Break s1)
    then show ?thesis using marchBody_Break[of g c st s1] body by simp
  next
    case (Continue s1)
    with body assms(1,2) have rec: "march g c (iter + 1) s1 = Inr (n, st')"
      by (subst (asm) march_unfold) simp
    from marchBody_Continue[of g c st s1] body Continue
    obtain ys where ys: "waypoints s1 = waypoints st @ currPosition st # ys" by auto
    from march_waypoints[OF rec assms(2)]
    obtain zs where "waypoints st' = waypoints s1 @ currPosition s1 # zs" by auto
    then have "waypoints st' = waypoints st @ currPosition st # ys @ currPosition s1 # zs"
      using ys by simp
    then show ?thesis using assms(3) by simp
  qed
qed

lemma march_length:
  "march g c iter st = Inr (n, st') \<Longrightarrow> iter \<le> MAX_ITER \<Longrightarrow>
   n \<le> MAX_ITER \<and> iter \<le> n \<and> length (waypoints st) + (n - iter) \<le> length (waypoints st')"
proof (induction g c iter st rule: march.induct)
  case (1 g c iter st)
  show ?case
  proof (cases "iter < MAX_ITER")
    case False
    then show ?thesis using "1.prems" by (subst (asm) march_unfold) auto
  next
    case True
    from "1.prems" True obtain out where body: "marchBody g c st = Inr out"
      by (subst (asm) march_unfold) (auto split: sum.splits)
    show ?thesis
    proof (cases out)
      case (Break s1)
      with body "1.prems" True have "st' = s1" "n = iter + 1"
        by (subst (asm) march_unfold, simp)+
      then show ?thesis using marchBody_Break[of g c st s1] body Break True by simp
    next
      case (Continue s1)
      with body "1.prems" True have rec: "march g c (iter + 1) s1 = Inr (n, st')"
        by (subst (asm) march_unfold) simp
      from marchBody_Continue[of g c st s1] body Continue
      obtain ys where ys: "waypoints s1 = waypoints st @ currPosition st # ys" by auto
      from "1.IH"[OF True body Continue rec] True
      have "n \<le> MAX_ITER \<and> iter + 1 \<le> n \<and> length (waypoints s1) + (n - (iter + 1)) \<le> length (waypoints st')"
        by linarith
      then show ?thesis using ys by auto
    qed
  qed
qed


lemma undoRounding_hd:
  assumes "undoRounding g e2d (r0 # rs) (p # ys) = Inr wps" "length rs = length ys"
    "ys = [] \<longrightarrow> fst e2d = fst p" "r0 \<notin> set rs"
  shows "wps \<noteq> [] \<and> hd wps = p"
proof (cases ys rule: rev_cases)
  case Nil
  then have "rs = []" using assms(2) by simp
  with Nil assms(1,3) show ?thesis
    by (auto simp: undoRounding_def prod_eq_iff split: if_splits)
next
  case (snoc zs z)
  with assms(2) obtain rs' r where rs: "rs = rs' @ [r]"
    by (cases rs rule: rev_cases) auto
  with snoc assms(2) have len: "length rs' = length zs" by simp
  have r: "r \<noteq> r0" using assms(4) rs by auto
  have "rev (zip (r0 # rs) (p # ys)) = (r, z) # rev (zip (r0 # rs') (p # zs))"
    using rs snoc len by simp
  then show ?thesis using assms(1) r rs snoc len
    by (auto simp: undoRounding_def split: if_splits)
qed

lemma undoRounding_length:
  assumes "undoRounding g e2d refs wps = Inr wps'" "length refs = length wps"
  shows "length wps' = length wps"
proof (cases "rev (zip refs wps)")
  case Nil
  show ?thesis using assms(1) unfolding undoRounding_def Nil by simp
next
  case (Cons x xs)
  obtain r w where x: "x = (r, w)" by (cases x)
  show ?thesis
  proof (cases "numberAlmostEqual g (fst e2d) (fst w) 0.51")
    case True
    then have "wps' = map (\<lambda>(r', p). if r' = r then (fst e2d, snd p) else p) (zip refs wps)"
      using assms(1) unfolding undoRounding_def Cons x by simp
    then show ?thesis using assms(2) by simp
  next
    case False
    then have "wps' = wps" using assms(1) unfolding undoRounding_def Cons x by simp
    then show ?thesis by simp
  qed
qed

lemma undoRounding_unchanged:
  "length refs = length wps \<Longrightarrow> wps \<noteq> [] \<Longrightarrow>
   \<not> numberAlmostEqual g (fst e2d) (fst (last wps)) 0.51 \<Longrightarrow>
   undoRounding g e2d refs wps = Inr wps"
proof -
  assume len: "length refs = length wps" and ne: "wps \<noteq> []"
    and no: "\<not> numberAlmostEqual g (fst e2d) (fst (last wps)) 0.51"
  from ne obtain ws w where w: "wps = ws @ [w]" by (cases wps rule: rev_cases) auto
  with len obtain rs r where r: "refs = rs @ [r]" by (cases refs rule: rev_cases) auto
  have "rev (zip refs wps) = (r, w) # rev (zip rs ws)" using w r len by simp
  then show ?thesis using no w by (simp add: undoRounding_def)
qed

lemma distanceBetween_self [simp]: "distanceBetween a a = 0"
  by (simp add: distanceBetween_def)

lemma distanceBetween_nonneg [simp]: "0 \<le> distanceBetween a b"
  by (simp add: distanceBetween_def)

lemma from2d_start:
  "\<not> regionWaypointsXYEqual start end' \<Longrightarrow>
   from2dCutawayCoordinate (to2dCutawayCoordinate start start) start end' = toPathpoint start"
proof -
  assume "\<not> regionWaypointsXYEqual start end'"
  then have "xy end' \<noteq> xy start" by (auto simp: regionWaypointsXYEqual_def xy_def)
  then have "sqrt ((wx end' - wx start)\<^sup>2 + (wy end' - wy start)\<^sup>2) \<noteq> 0"
    using magnitude_zero_iff[of "xy end'" "xy start"] by (auto simp: xy_def)
  then show ?thesis
    by (simp add: from2dCutawayCoordinate_def to2dCutawayCoordinate_def towardsPoint_def Let_def
        toPathpoint_def xy_def)
qed

lemma tracerConsts_end2d:
  "c_end2d (tracerConsts g sc start end' polys0 flying burrowing t)
     = (of_int \<lfloor>distanceBetween (xy start) (xy end')\<rfloor>, elevation end')"
  by (simp add: tracerConsts_def Let_def to2dCutawayCoordinate_def)

lemma tracerStart_sel:
  "currPosition (tracerStart g start c) = (0, elevation start)"
  "waypoints (tracerStart g start c) = []"
  "currPoly (tracerStart g start c) = None"
  "currPolyIndex (tracerStart g start c) = - 1"
  "currEnd (tracerStart g start c) \<noteq> None"
  "positionRef (tracerStart g start c) = Start2d"
  "endRef (tracerStart g start c) \<noteq> Start2d"
  "waypointRefs (tracerStart g start c) = []"
  by (simp_all add: tracerStart_def Let_def to2dCutawayCoordinate_def)

lemma tracePath_general:
  "regions2dCutaway g sc start end' regs = (polys0, log1) \<Longrightarrow> polys0 \<noteq> [] \<Longrightarrow>
   tracePath g sc start end' regs flying burrowing t =
     (let c = tracerConsts g sc start end' polys0 flying burrowing t
      in case march g c 0 (tracerStart g start c) of
           Inl e \<Rightarrow> Inl e
         | Inr (iter, st) \<Rightarrow>
             (case undoRounding g (c_end2d c) (waypointRefs st) (waypoints st) of
                Inl e \<Rightarrow> Inl e
              | Inr wps \<Rightarrow>
                  Inr (map (\<lambda>waypoint. from2dCutawayCoordinate waypoint start end') wps,
                       log1 @ (if iter \<ge> MAX_ITER then [pathError] else []))))"
  by (simp add: tracePath_def Let_def cong: sum.case_cong prod.case_cong)

lemma tracePath_start:
  assumes "tracePath g sc start end' regs flying burrowing t = Inr (path, msgs)"
    and "\<not> regionWaypointsXYEqual start end'"
  shows "path \<noteq> [] \<and> hd path = toPathpoint start
         \<and> (fst (regions2dCutaway g sc start end' regs) = [] \<longrightarrow> last path = toPathpoint end')"
proof (cases "fst (regions2dCutaway g sc start end' regs) = []")
  case True
  then show ?thesis using assms(1) regions2dCutaway_empty[OF True]
    by (auto simp: tracePath_def)
next
  case False
  obtain polys0 log1 where cut: "regions2dCutaway g sc start end' regs = (polys0, log1)"
    by fastforce
  with False have ne: "polys0 \<noteq> []" by simp
  define c where "c = tracerConsts g sc start end' polys0 flying burrowing t"
  let ?st0 = "tracerStart g start c"
  from assms(1) obtain n st wps where
    m: "march g c 0 ?st0 = Inr (n, st)"
    and u: "undoRounding g (c_end2d c) (waypointRefs st) (waypoints st) = Inr wps"
    and p: "path = map (\<lambda>waypoint. from2dCutawayCoordinate waypoint start end') wps"
    unfolding tracePath_general[OF cut ne] c_def[symmetric]
    by (auto simp: Let_def split: sum.splits prod.splits)
  from march_waypoints[OF m] obtain ys where ys: "waypoints st = (0, elevation start) # ys"
    by (auto simp: MAX_ITER_def tracerStart_sel)
  from march_refs[OF m] obtain rs where rs: "waypointRefs st = Start2d # rs" "Start2d \<notin> set rs"
    "length (waypointRefs st) = length (waypoints st)"
    by (auto simp: MAX_ITER_def tracerStart_sel)
  have len: "length rs = length ys" using rs(1,3) ys by simp
  have e2d: "0 \<le> fst (c_end2d c)"
    by (simp add: c_def tracerConsts_end2d)
  have single: "ys = [] \<longrightarrow> fst (c_end2d c) = fst (0 :: real, elevation start)"
  proof
    assume "ys = []"
    then have "waypoints st = waypoints ?st0 @ [currPosition ?st0]"
      using ys by (simp add: tracerStart_sel)
    from march_single[OF m _ this]
    have "fst (c_end2d c) \<le> 0" by (simp add: MAX_ITER_def tracerStart_sel)
    then show "fst (c_end2d c) = fst (0 :: real, elevation start)" using e2d by simp
  qed
  from undoRounding_hd[OF u[unfolded ys rs(1)] len single rs(2)]
  have "wps \<noteq> [] \<and> hd wps = (0, elevation start)" .
  then have "path \<noteq> [] \<and> hd path = from2dCutawayCoordinate (0, elevation start) start end'"
    using p by (simp add: hd_map)
  moreover have "to2dCutawayCoordinate start start = (0, elevation start)"
    by (simp add: to2dCutawayCoordinate_def)
  ultimately show ?thesis using False from2d_start[OF assms(2)] by simp
qed

lemma constructRegionsPath_general:
  "\<not> regionWaypointsEqual start end' \<Longrightarrow> \<not> (flying = Some True \<and> burrowing = Some True) \<Longrightarrow>
   elevatedRegions sc regionsOpt \<noteq> [] \<Longrightarrow>
   constructRegionsPath g sc start end' regionsOpt flying burrowing samples =
     (if regionWaypointsXYEqual start end'
      then (if (flying = Some False \<and> elevationType sc end' regionsOpt = FLOATING)
               \<or> (burrowing = Some False \<and> elevationType sc end' regionsOpt = UNDERGROUND)
            then Inr ([toPathpoint start,
                       \<lparr>px = Num (wx end'), py = Undefined,
                        pelevation = fst (nearestGroundElevation sc end' regionsOpt samples burrowing)\<rparr>],
                      snd (nearestGroundElevation sc end' regionsOpt samples burrowing))
            else Inr ([toPathpoint start, toPathpoint end'], []))
      else tracePath g sc start end' (elevatedRegions sc regionsOpt) flying burrowing
             (elevationType sc end' regionsOpt))"
  by (auto simp: constructRegionsPath_def Let_def elevationType_regions
      nearestGroundElevation_regions split_beta)

text \<open>
  C1, amended. Whenever \<open>constructRegionsPath\<close> returns, the path is not empty and its
  first element equals the start, in position and elevation. Its last element equals the
  end in the short-circuit cases (start equals end; flying and burrowing; no elevated
  region; empty cutaway) and in an elevation-only move whose end is not moved to the
  ground.
\<close>

theorem path_starts_at_start:
  "constructRegionsPath g sc start end' regionsOpt flying burrowing samples = Inr (path, msgs) \<Longrightarrow>
   path \<noteq> [] \<and> hd path = toPathpoint start
   \<and> (regionWaypointsEqual start end'
       \<or> (flying = Some True \<and> burrowing = Some True)
       \<or> elevatedRegions sc regionsOpt = []
       \<or> (regionWaypointsXYEqual start end'
           \<and> \<not> ((flying = Some False \<and> elevationType sc end' regionsOpt = FLOATING)
                 \<or> (burrowing = Some False \<and> elevationType sc end' regionsOpt = UNDERGROUND)))
       \<or> (\<not> regionWaypointsXYEqual start end'
           \<and> fst (regions2dCutaway g sc start end' (elevatedRegions sc regionsOpt)) = [])
       \<longrightarrow> last path = toPathpoint end')"
proof -
  assume r: "constructRegionsPath g sc start end' regionsOpt flying burrowing samples = Inr (path, msgs)"
  let ?short = "regionWaypointsEqual start end' \<or> (flying = Some True \<and> burrowing = Some True)
                \<or> elevatedRegions sc regionsOpt = []"
  show ?thesis
  proof (cases ?short)
    case True
    then have "constructRegionsPath g sc start end' regionsOpt flying burrowing samples
                 = Inr ([toPathpoint start, toPathpoint end'], [])"
      by (rule constructRegionsPath_short)
    then have "path = [toPathpoint start, toPathpoint end']" using r by simp
    then show ?thesis by simp
  next
    case False
    then have n1: "\<not> regionWaypointsEqual start end'"
      and n2: "\<not> (flying = Some True \<and> burrowing = Some True)"
      and n3: "elevatedRegions sc regionsOpt \<noteq> []" by blast+
    note u = constructRegionsPath_general[OF n1 n2 n3, of g samples]
    show ?thesis
    proof (cases "regionWaypointsXYEqual start end'")
      case True
      then show ?thesis using r n1 n2 n3 unfolding u
        by (auto split: if_splits)
    next
      case xy: False
      from r xy have
        "tracePath g sc start end' (elevatedRegions sc regionsOpt) flying burrowing
           (elevationType sc end' regionsOpt) = Inr (path, msgs)"
        unfolding u by simp
      from tracePath_start[OF this xy] xy n1 n2 n3 show ?thesis by auto
    qed
  qed
qed

lemma distanceBetween_horizontal: "distanceBetween (a, c) (b, c) = \<bar>b - a\<bar>"
  by (simp add: distanceBetween_def)

lemma towardsPoint_horizontal:
  "towardsPoint (a, c) (b, c) d = (a + (b - a) * (d / \<bar>b - a\<bar>), c)"
  by (simp add: towardsPoint_def Let_def)

lemma tracerConsts_sel:
  "c_flying (tracerConsts g sc start end' polys0 flying burrowing t) = flying"
  "c_burrowing (tracerConsts g sc start end' polys0 flying burrowing t) = burrowing"
  "c_sceneFloor (tracerConsts g sc start end' polys0 flying burrowing t) = sceneFloor sc"
  "c_endType (tracerConsts g sc start end' polys0 flying burrowing t) = t"
  by (simp_all add: tracerConsts_def Let_def)

lemmas example_defs =
  exampleScene_def plateau10_def exampleRegion_def exampleGeometry_def elevatedRegions_def
  elevationType_def regions2dCutaway_def MIN_ELEV_def List.map_filter_def xy_def wpAt_def
  regionWaypointsEqual_def regionWaypointsXYEqual_def

lemmas tracer_defs =
  tracePath_def tracerConsts_def tracerStart_def marchBody_def redirectEnd_def hasLOSToEnd_def
  moveToPolygon_def polygonsIntersections_def cutawayElevationType_def pointOnPolygonEdge_def
  cutawayPointsEqual_def undoRounding_def to2dCutawayCoordinate_def from2dCutawayCoordinate_def
  findDestPoly_def samePolygon_def cycleToNextPoint_def findIndex_def

lemma flat_walk:
  "constructRegionsPath exampleGeometry exampleScene (wpAt 0 0 0) (wpAt 10 0 0) None None None None
     = Inr ([toPathpoint (wpAt 0 0 0), toPathpoint (wpAt 10 0 0)], [])"
  by (simp add: constructRegionsPath_def example_defs tracer_defs march.simps Let_def MAX_ITER_def
      distanceBetween_horizontal towardsPoint_horizontal toPathpoint_def enumerate_eq_zip)

lemma short_move:
  "constructRegionsPath exampleGeometry exampleScene (wpAt 0 0 0) (wpAt (1/2) 0 0) None None None None
     = Inr ([toPathpoint (wpAt 0 0 0)], [])"
  by (simp add: constructRegionsPath_def example_defs tracer_defs march.simps Let_def MAX_ITER_def
      distanceBetween_horizontal towardsPoint_horizontal toPathpoint_def enumerate_eq_zip)


text \<open>
  A burrowing move pushes the intersection it reaches twice, once when it finds it and
  once at the top of the next pass. Both waypoints are one object, so the assignment that
  undoes the rounding of the end moves both from the distance \<open>10.25\<close> to \<open>10\<close>.
\<close>

lemma burrowing_pushes_one_object_twice:
  "constructRegionsPath burrowGeometry exampleScene (wpAt 0 0 0) (wpAt (21/2) 0 0) None None
       (Some True) None
     = Inr ([toPathpoint (wpAt 0 0 0), toPathpoint (wpAt 10 0 0), toPathpoint (wpAt 10 0 0)], [])"
  by (simp add: constructRegionsPath_def example_defs tracer_defs march.simps Let_def MAX_ITER_def
      burrowGeometry_def distanceBetween_horizontal towardsPoint_horizontal toPathpoint_def
      enumerate_eq_zip)

text \<open>
  C1, as stated, fails for the last element. An elevation-only move to a floating end,
  not flying, ends on the ground, below the end. A move shorter than one unit ends where
  it starts: the distance of the end is rounded down to zero and the march stops at once.
\<close>

theorem path_end_counterexample:
  "constructRegionsPath exampleGeometry exampleScene (wpAt 0 0 0) (wpAt 0 0 20) None
       (Some False) None None
     = Inr ([toPathpoint (wpAt 0 0 0), \<lparr>px = Num 0, py = Undefined, pelevation = Num 0\<rparr>], [])
   \<and> pelevation (toPathpoint (wpAt 0 0 20)) = Num 20
   \<and> constructRegionsPath exampleGeometry exampleScene (wpAt 0 0 0) (wpAt (1/2) 0 0) None
       None None None
     = Inr ([toPathpoint (wpAt 0 0 0)], [])
   \<and> toPathpoint (wpAt 0 0 0) \<noteq> toPathpoint (wpAt (1/2) 0 0)"
proof -
  have "constructRegionsPath exampleGeometry exampleScene (wpAt 0 0 0) (wpAt 0 0 20) None
       (Some False) None None
     = Inr ([toPathpoint (wpAt 0 0 0), \<lparr>px = Num 0, py = Undefined, pelevation = Num 0\<rparr>], [])"
    by (simp add: constructRegionsPath_def example_defs nearestGroundElevation_def Let_def)
  then show ?thesis using short_move by (simp add: toPathpoint_def)
qed

theorem path_starts_at_start_witness:
  "constructRegionsPath exampleGeometry exampleScene (wpAt 0 0 0) (wpAt 10 0 0) None None None None
     = Inr ([toPathpoint (wpAt 0 0 0), toPathpoint (wpAt 10 0 0)], [])
   \<and> hd [toPathpoint (wpAt 0 0 0), toPathpoint (wpAt 10 0 0)] = toPathpoint (wpAt 0 0 0)
   \<and> regionWaypointsEqual (wpAt 1 2 3) (wpAt 1 2 3)
   \<and> constructRegionsPath exampleGeometry exampleScene (wpAt 1 2 3) (wpAt 1 2 3) None None None None
     = Inr ([toPathpoint (wpAt 1 2 3), toPathpoint (wpAt 1 2 3)], [])
   \<and> last [toPathpoint (wpAt 1 2 3), toPathpoint (wpAt 1 2 3)] = toPathpoint (wpAt 1 2 3)"
proof -
  have same: "regionWaypointsEqual (wpAt 1 2 3) (wpAt 1 2 3)"
    by (simp add: regionWaypointsEqual_def)
  have run: "constructRegionsPath exampleGeometry exampleScene (wpAt 1 2 3) (wpAt 1 2 3) None None None None
     = Inr ([toPathpoint (wpAt 1 2 3), toPathpoint (wpAt 1 2 3)], [])"
    using same by (simp add: constructRegionsPath_def)
  show ?thesis
    using path_starts_at_start[OF flat_walk] path_starts_at_start[OF run] flat_walk run same
    by simp
qed

lemma edgeIntersections_ok:
  "\<forall>i\<in>set is. i < length edges
      \<and> lineLineIntersection g a b (fst (edges ! i)) (snd (edges ! i)) \<noteq> None \<Longrightarrow>
   \<exists>ixs. edgeIntersections g a b edges k is = Inr ixs \<and> (\<forall>ix\<in>set ixs. cr_poly ix = k)"
  by (induction "is") (auto simp: Let_def)

lemma polygonsIntersections_scan_ok:
  "\<forall>kp\<in>set kps. wellFormedPolygon g (snd kp) \<Longrightarrow>
   \<exists>ixs. polygonsIntersections_scan g a b kps skip = Inr ixs
         \<and> (\<forall>ix\<in>set ixs. wellFormedPolygon g (snd (cr_poly ix)))"
proof (induction kps)
  case Nil
  then show ?case by simp
next
  case (Cons kp kps)
  obtain k poly where kp: "kp = (k, poly)" by (cases kp)
  from Cons.prems kp have wf: "wellFormedPolygon g poly" by simp
  from Cons.IH Cons.prems obtain rest where
    rest: "polygonsIntersections_scan g a b kps skip = Inr rest"
          "\<forall>ix\<in>set rest. wellFormedPolygon g (snd (cr_poly ix))" by auto
  from wf have "\<forall>i\<in>set (segmentIntersections g poly a b). i < length (iterateEdges g poly)
      \<and> lineLineIntersection g a b (fst (iterateEdges g poly ! i)) (snd (iterateEdges g poly ! i)) \<noteq> None"
    unfolding wellFormedPolygon_def by blast
  from edgeIntersections_ok[OF this, of "(k, poly)"] obtain ixs where
    ixs: "edgeIntersections g a b (iterateEdges g poly) (k, poly) (segmentIntersections g poly a b) = Inr ixs"
         "\<forall>ix\<in>set ixs. cr_poly ix = (k, poly)" by auto
  show ?case using kp rest ixs wf by auto
qed

lemma polygonsIntersections_ok:
  assumes "\<forall>poly\<in>set polys. wellFormedPolygon g poly"
  shows "\<exists>ixs. polygonsIntersections g a b polys skip = Inr ixs
               \<and> (\<forall>ix\<in>set ixs. wellFormedPolygon g (snd (cr_poly ix)))"
proof -
  have "\<forall>kp\<in>set (enumerate 0 polys). wellFormedPolygon g (snd kp)"
    using assms by (auto simp: in_set_enumerate_eq)
  from polygonsIntersections_scan_ok[OF this, of a b skip]
  show ?thesis by (auto simp: polygonsIntersections_def)
qed

lemma findIndexFrom_ge: "0 \<le> i \<Longrightarrow> - 1 \<le> findIndexFrom P xs i"
  by (induction xs arbitrary: i) auto

lemma findIndex_ge: "- 1 \<le> findIndex P xs"
  by (simp add: findIndex_def findIndexFrom_ge)

lemma cycleToNextPoint_inv:
  "wellFormedPolygon g (snd poly) \<Longrightarrow> - 1 \<le> idx \<Longrightarrow>
   marchInv g (cycleToNextPoint g poly ce r idx wps refs)"
  by (auto simp: marchInv_def cycleToNextPoint_def Let_def wellFormedPolygon_def)

lemma moveToPolygon_ok:
  assumes "\<forall>poly\<in>set (c_polys c). wellFormedPolygon g poly" "- 1 \<le> idx"
  shows "\<exists>st'. moveToPolygon g c pos ce r idx wps refs = Inr (Continue st') \<and> marchInv g st'"
proof -
  from polygonsIntersections_ok[OF assms(1), of pos ce None] obtain ixs where
    ixs: "polygonsIntersections g pos ce (c_polys c) None = Inr ixs"
         "\<forall>ix\<in>set ixs. wellFormedPolygon g (snd (cr_poly ix))" by auto
  show ?thesis
  proof (cases ixs)
    case Nil
    then show ?thesis using ixs assms(2) by (simp add: moveToPolygon_def marchInv_def)
  next
    case (Cons ix0 rest)
    then have wf0: "wellFormedPolygon g (snd (cr_poly ix0))" using ixs(2) by simp
    let ?st = "cycleToNextPoint g (cr_poly ix0) (snd (cr_edge ix0))
                 (EdgeB (fst (cr_poly ix0)) (cr_edgeIndex ix0))
                 (findIndex (\<lambda>pt. pointAlmostEqual g pt (snd (cr_edge ix0)))
                    (iteratePoints g (snd (cr_poly ix0))))
                 (wps @ [cr_point ix0]) (refs @ [Intersection (length wps) 0])"
    have inv: "marchInv g ?st" by (rule cycleToNextPoint_inv[OF wf0 findIndex_ge])
    show ?thesis
    proof (cases "c_burrowing c = Some True")
      case True
      then show ?thesis using ixs(1) Cons assms(2)
        by (simp add: moveToPolygon_def Let_def marchInv_def)
    next
      case False
      then have "moveToPolygon g c pos ce r idx wps refs = Inr (Continue ?st)"
        using ixs(1) Cons by (simp add: moveToPolygon_def Let_def)
      then show ?thesis using inv by blast
    qed
  qed
qed

lemma redirectEnd_poly:
  "snd (snd (redirectEnd c n pos ce r cp)) = None \<or> snd (snd (redirectEnd c n pos ce r cp)) = cp"
  by (auto simp: redirectEnd_def Let_def split: if_splits)

lemma marchBody_ok:
  assumes "\<forall>poly\<in>set (c_polys c). wellFormedPolygon g poly" "marchInv g st"
  shows "\<exists>out. marchBody g c st = Inr out \<and> marchInv g (outcomeState out)"
proof -
  from assms(2) obtain ce0 where ce0: "currEnd st = Some ce0" by (auto simp: marchInv_def)
  let ?n = "length (waypoints st @ [currPosition st])"
  obtain ce cr cp where r: "redirectEnd c ?n (currPosition st) ce0 (endRef st) (currPoly st) = (ce, cr, cp)"
    by (metis prod_cases3)
  have cp: "cp = None \<or> cp = currPoly st"
    using redirectEnd_poly[of c ?n "currPosition st" ce0 "endRef st" "currPoly st"] r by simp
  have idx: "- 1 \<le> currPolyIndex st" using assms(2) by (simp add: marchInv_def)
  show ?thesis
  proof (cases cp)
    case None
    from moveToPolygon_ok[OF assms(1) idx, of "currPosition st" ce cr
        "waypoints st @ [currPosition st]" "waypointRefs st @ [positionRef st]"]
    show ?thesis using ce0 r None idx
      by (auto simp: marchBody_def Let_def marchInv_def)
  next
    case (Some poly)
    with cp have "currPoly st = Some poly" by simp
    then have wf: "wellFormedPolygon g (snd poly)" using assms(2) by (simp add: marchInv_def)
    from cycleToNextPoint_inv[OF wf idx, of ce cr "waypoints st @ [currPosition st]"
        "waypointRefs st @ [positionRef st]"]
    show ?thesis using ce0 r Some idx wf
      by (auto simp: marchBody_def Let_def marchInv_def)
  qed
qed

lemma march_ok:
  "\<forall>poly\<in>set (c_polys c). wellFormedPolygon g poly \<Longrightarrow> marchInv g st \<Longrightarrow>
   \<exists>n st'. march g c iter st = Inr (n, st')"
proof (induction g c iter st rule: march.induct)
  case (1 g c iter st)
  show ?case
  proof (cases "iter < MAX_ITER")
    case False
    then show ?thesis by (subst march_unfold) simp
  next
    case True
    from marchBody_ok[OF "1.prems"] obtain out where
      out: "marchBody g c st = Inr out" "marchInv g (outcomeState out)" by auto
    show ?thesis
    proof (cases out)
      case (Break s1)
      then show ?thesis using out True by (subst march_unfold) simp
    next
      case (Continue s1)
      from "1.IH"[OF True out(1) Continue "1.prems"(1)] out(2) Continue
      obtain n st' where "march g c (iter + 1) s1 = Inr (n, st')" by auto
      then show ?thesis using out(1) Continue True by (subst march_unfold) simp
    qed
  qed
qed


lemma regions2dCutaway_polys:
  "regions2dCutaway g sc start end' regs = (polys0, log1) \<Longrightarrow>
   (\<exists>paths. set polys0 \<subseteq> set (toPolygons g paths)) \<and> (log1 = [] \<or> log1 = [holesError])"
  by (auto simp: regions2dCutaway_def Let_def split: if_splits)

lemma tracerConsts_polys:
  "poly \<in> set (c_polys (tracerConsts g sc start end' polys0 flying burrowing t)) \<Longrightarrow>
   \<exists>p0\<in>set polys0. poly = p0 \<or> poly = reverseOrientation g p0"
  by (auto simp: tracerConsts_def Let_def split: if_splits)

lemma error_messages_differ: "pathError \<noteq> holesError" "pathError \<noteq> groundError"
  by (simp_all add: pathError_def holesError_def groundError_def)

lemma undoRounding_ok:
  "wps \<noteq> [] \<Longrightarrow> length refs = length wps \<Longrightarrow>
   \<exists>wps'. undoRounding g e2d refs wps = Inr wps' \<and> length wps' = length wps"
proof -
  assume ne: "wps \<noteq> []" and len: "length refs = length wps"
  from ne obtain ws w where w: "wps = ws @ [w]" by (cases wps rule: rev_cases) auto
  with len obtain rs r where r: "refs = rs @ [r]" by (cases refs rule: rev_cases) auto
  have "rev (zip refs wps) = (r, w) # rev (zip rs ws)" using w r len by simp
  then show ?thesis using len w r unfolding undoRounding_def by simp
qed

lemma tracePath_ok:
  assumes "wellFormedGeometry g"
  shows "\<exists>path msgs. tracePath g sc start end' regs flying burrowing t = Inr (path, msgs)
           \<and> (pathError \<in> set msgs \<longrightarrow> MAX_ITER \<le> length path)"
proof -
  obtain polys0 log1 where cut: "regions2dCutaway g sc start end' regs = (polys0, log1)"
    by fastforce
  from regions2dCutaway_polys[OF cut] obtain paths where
    sub: "set polys0 \<subseteq> set (toPolygons g paths)" and log1: "log1 = [] \<or> log1 = [holesError]"
    by auto
  show ?thesis
  proof (cases "polys0 = []")
    case True
    then show ?thesis using cut log1 error_messages_differ
      by (auto simp: tracePath_def)
  next
    case False
    define c where "c = tracerConsts g sc start end' polys0 flying burrowing t"
    have wf: "\<forall>poly\<in>set (c_polys c). wellFormedPolygon g poly"
    proof
      fix poly assume "poly \<in> set (c_polys c)"
      from tracerConsts_polys[OF this[unfolded c_def]] obtain p0 where
        p0: "p0 \<in> set polys0" "poly = p0 \<or> poly = reverseOrientation g p0" by auto
      then have "p0 \<in> set (toPolygons g paths)" using sub by blast
      then have "wellFormedPolygon g p0 \<and> wellFormedPolygon g (reverseOrientation g p0)"
        using assms unfolding wellFormedGeometry_def by blast
      then show "wellFormedPolygon g poly" using p0(2) by auto
    qed
    have inv: "marchInv g (tracerStart g start c)"
      by (simp add: marchInv_def tracerStart_sel)
    from march_ok[OF wf inv, of 0] obtain n st where
      m: "march g c 0 (tracerStart g start c) = Inr (n, st)" by auto
    from march_waypoints[OF m] have ne: "waypoints st \<noteq> []" by (auto simp: MAX_ITER_def)
    from march_length[OF m] have len: "n \<le> length (waypoints st)"
      by (simp add: tracerStart_sel)
    from march_refs[OF m] have rl: "length (waypointRefs st) = length (waypoints st)"
      by (auto simp: MAX_ITER_def tracerStart_sel)
    from undoRounding_ok[OF ne rl, of g "c_end2d c"] obtain wps where
      u: "undoRounding g (c_end2d c) (waypointRefs st) (waypoints st) = Inr wps"
         "length wps = length (waypoints st)"
      by auto
    have "tracePath g sc start end' regs flying burrowing t =
            Inr (map (\<lambda>waypoint. from2dCutawayCoordinate waypoint start end') wps,
                 log1 @ (if n \<ge> MAX_ITER then [pathError] else []))"
      unfolding tracePath_general[OF cut False] c_def[symmetric]
      by (simp add: Let_def m u)
    then show ?thesis using log1 len u(2) error_messages_differ by auto
  qed
qed

lemma nearestGroundElevation_log:
  "snd (nearestGroundElevation sc w ro so b) = []
   \<or> snd (nearestGroundElevation sc w ro so b) = [groundError]"
  by (auto simp: nearestGroundElevation_def Let_def split: prod.splits)

lemma constructRegionsPath_ok:
  assumes "wellFormedGeometry g"
  shows "\<exists>path msgs. constructRegionsPath g sc start end' regionsOpt flying burrowing samples = Inr (path, msgs)
           \<and> (pathError \<in> set msgs \<longrightarrow> MAX_ITER \<le> length path)"
proof (cases "regionWaypointsEqual start end' \<or> (flying = Some True \<and> burrowing = Some True)
                \<or> elevatedRegions sc regionsOpt = []")
  case True
  then have "constructRegionsPath g sc start end' regionsOpt flying burrowing samples
                 = Inr ([toPathpoint start, toPathpoint end'], [])"
    by (auto simp: constructRegionsPath_def Let_def)
  then show ?thesis by simp
next
  case False
  then have n1: "\<not> regionWaypointsEqual start end'"
    and n2: "\<not> (flying = Some True \<and> burrowing = Some True)"
    and n3: "elevatedRegions sc regionsOpt \<noteq> []" by blast+
  note u = constructRegionsPath_general[OF n1 n2 n3, of g samples]
  show ?thesis
  proof (cases "regionWaypointsXYEqual start end'")
    case True
    then show ?thesis unfolding u
      using nearestGroundElevation_log[of sc end' regionsOpt samples burrowing] error_messages_differ
      by auto
  next
    case False
    then show ?thesis unfolding u using tracePath_ok[OF assms] by simp
  qed
qed

lemma groundLoop_result:
  "groundLoop rs w iter m = (n, e) \<Longrightarrow> iter < MAX_ITER \<Longrightarrow>
   iter < n \<and> n \<le> MAX_ITER \<and> e = (maxEntryElevation rs w ^^ (n - iter - 1)) m"
proof (induction rs w iter m rule: groundLoop.induct)
  case (1 rs w iter m)
  let ?f = "maxEntryElevation rs w"
  show ?case
  proof (cases "?f m \<noteq> m \<and> iter + 1 < MAX_ITER")
    case False
    then have "groundLoop rs w iter m = (iter + 1, m)" by (subst groundLoop_unfold) auto
    then show ?thesis using "1.prems" by auto
  next
    case True
    then have rec: "groundLoop rs w (iter + 1) (?f m) = (n, e)"
      using "1.prems"(1) by (subst (asm) groundLoop_unfold) simp
    have c: "js_strict_ne (?f m) m \<and> iter + 1 < MAX_ITER"
      using True by (simp add: js_strict_ne_maxEntry)
    from "1.IH"[OF refl refl refl c rec] True
    have ih: "iter + 1 < n \<and> n \<le> MAX_ITER \<and> e = (?f ^^ (n - (iter + 1) - 1)) (?f m)" by simp
    then have "n - iter - 1 = Suc (n - (iter + 1) - 1)" by linarith
    then have "(?f ^^ (n - iter - 1)) m = (?f ^^ (n - (iter + 1) - 1)) (?f m)"
      by (simp only: funpow_Suc_right o_apply)
    then show ?thesis using ih by simp
  qed
qed

lemma tracePath_at_cap:
  assumes cut: "regions2dCutaway g sc start end' regs = (polys0, log1)" and ne: "polys0 \<noteq> []"
    and m: "march g (tracerConsts g sc start end' polys0 flying burrowing t) 0
              (tracerStart g start (tracerConsts g sc start end' polys0 flying burrowing t))
            = Inr (MAX_ITER, st)"
  shows "\<exists>wps. undoRounding g (c_end2d (tracerConsts g sc start end' polys0 flying burrowing t))
                 (waypointRefs st) (waypoints st) = Inr wps
               \<and> length wps = length (waypoints st)
               \<and> MAX_ITER \<le> length wps
               \<and> tracePath g sc start end' regs flying burrowing t
                   = Inr (map (\<lambda>waypoint. from2dCutawayCoordinate waypoint start end') wps,
                          log1 @ [pathError])"
proof -
  let ?c = "tracerConsts g sc start end' polys0 flying burrowing t"
  from march_waypoints[OF m] have w: "waypoints st \<noteq> []" by (auto simp: MAX_ITER_def)
  from march_length[OF m] have len: "MAX_ITER \<le> length (waypoints st)"
    by (simp add: tracerStart_sel)
  from march_refs[OF m] have rl: "length (waypointRefs st) = length (waypoints st)"
    by (auto simp: MAX_ITER_def tracerStart_sel)
  from undoRounding_ok[OF w rl, of g "c_end2d ?c"] obtain wps where
    u: "undoRounding g (c_end2d ?c) (waypointRefs st) (waypoints st) = Inr wps"
       "length wps = length (waypoints st)"
    by auto
  have "tracePath g sc start end' regs flying burrowing t
          = Inr (map (\<lambda>waypoint. from2dCutawayCoordinate waypoint start end') wps, log1 @ [pathError])"
    unfolding tracePath_general[OF cut ne] by (simp add: Let_def m u)
  then show ?thesis using u len by auto
qed

lemma cycle_regs:
  "elevatedRegions cycleScene None = [exampleRegion 0 10 0 4 (\<lambda>x. 5), exampleRegion 0 10 5 9 (\<lambda>x. 0)]"
  by (simp add: elevatedRegions_def cycleScene_def exampleRegion_def)

lemma cycle_step:
  "(maxEntryElevation (elevatedRegions cycleScene None) (wpAt 5 0 0) ^^ k) (Num 0)
     = (if even k then Num 0 else Num 5)"
  by (induction k) (simp_all add: cycle_regs maxEntryElevation_def exampleRegion_def)

lemma cycle_loop:
  "groundLoop (elevatedRegions cycleScene None) (wpAt 5 0 0) 0 (Num 0) = (MAX_ITER, Num 5)"
proof -
  let ?step = "maxEntryElevation (elevatedRegions cycleScene None) (wpAt 5 0 0)"
  have "\<forall>k. 0 + k + 1 < MAX_ITER \<longrightarrow> (?step ^^ Suc k) (Num 0) \<noteq> (?step ^^ k) (Num 0)"
  proof (intro allI impI)
    fix k
    show "(?step ^^ Suc k) (Num 0) \<noteq> (?step ^^ k) (Num 0)"
      unfolding cycle_step[of "Suc k"] cycle_step[of k] by simp
  qed
  from groundLoop_cap[OF this, of "MAX_ITER - 1"]
  have "groundLoop (elevatedRegions cycleScene None) (wpAt 5 0 0) 0 (Num 0)
          = (MAX_ITER, (?step ^^ (MAX_ITER - 1)) (Num 0))"
    by (simp add: MAX_ITER_def)
  moreover have "(?step ^^ (MAX_ITER - 1)) (Num 0) = Num 5"
    by (simp add: cycle_step MAX_ITER_def)
  ultimately show ?thesis by (simp only:)
qed



lemma wellFormed_exampleGeometry: "wellFormedGeometry exampleGeometry"
  by (auto simp: wellFormedGeometry_def wellFormedPolygon_def exampleGeometry_def)

lemma wellFormed_loopGeometry: "wellFormedGeometry loopGeometry"
  by (simp add: wellFormedGeometry_def wellFormedPolygon_def loopGeometry_def exampleGeometry_def)

lemma loop_consts:
  "tracerConsts loopGeometry exampleScene (wpAt 0 0 0) (wpAt 10 0 0) [loopRect] None None GROUND
     = loopConsts"
  by (simp add: tracerConsts_def Let_def loopConsts_def to2dCutawayCoordinate_def xy_def
      distanceBetween_horizontal loopGeometry_def exampleGeometry_def exampleScene_def)

lemma loop_body:
  "marchBody loopGeometry loopConsts (loopState W R)
     = Inr (Continue (loopState (W @ [(0, 1), (0, 1)])
                        (R @ [EdgeB 0 0, Intersection (Suc (length W)) 0])))"
  by (simp add: tracer_defs loopConsts_def loopState_def loopGeometry_def exampleGeometry_def
      Let_def enumerate_eq_zip)

lemma loop_first:
  "marchBody loopGeometry loopConsts (tracerStart loopGeometry (wpAt 0 0 0) loopConsts)
     = Inr (Continue (loopState [(0, 0), (0, 1)] [Start2d, Intersection 1 0]))"
  by (simp add: tracer_defs loopConsts_def loopState_def loopGeometry_def exampleGeometry_def
      Let_def enumerate_eq_zip xy_def)

lemma loop_march:
  "iter + d = MAX_ITER \<Longrightarrow>
   march loopGeometry loopConsts iter (loopState W R)
     = Inr (MAX_ITER, loopState (W @ replicate (2 * d) (0, 1)) (R @ loopRefs (length W) d))"
proof (induction d arbitrary: iter W R)
  case 0
  then show ?case by (subst march_unfold) simp
next
  case (Suc d)
  then have lt: "iter < MAX_ITER" by simp
  let ?W = "W @ [(0, 1), (0, 1)]"
  let ?R = "R @ [EdgeB 0 0, Intersection (Suc (length W)) 0]"
  have "march loopGeometry loopConsts iter (loopState W R)
          = march loopGeometry loopConsts (iter + 1) (loopState ?W ?R)"
    using lt by (subst march_unfold) (simp add: loop_body)
  also have "\<dots> = Inr (MAX_ITER, loopState (?W @ replicate (2 * d) (0, 1)) (?R @ loopRefs (length ?W) d))"
    using Suc.IH[of "iter + 1" ?W ?R] Suc.prems by simp
  finally show ?case by simp
qed

lemma loop_march_start:
  "march loopGeometry loopConsts 0 (tracerStart loopGeometry (wpAt 0 0 0) loopConsts)
     = Inr (MAX_ITER, loopState ([(0, 0), (0, 1)] @ replicate (2 * 9999) (0, 1))
                        ([Start2d, Intersection 1 0] @ loopRefs 2 9999))"
  using loop_march[of 1 9999 "[(0, 0), (0, 1)]" "[Start2d, Intersection 1 0]"]
  by (subst march_unfold) (simp add: loop_first MAX_ITER_def numeral_2_eq_2)

lemma loop_cutaway:
  "regions2dCutaway loopGeometry exampleScene (wpAt 0 0 0) (wpAt 10 0 0) (elevatedRegions exampleScene None)
     = ([loopRect], [])"
  by (simp add: example_defs distanceBetween_horizontal Let_def loopGeometry_def loopRect_def)

lemma length_loopRefs [simp]: "length (loopRefs n d) = 2 * d"
  by (induction d arbitrary: n) simp_all

lemma loop_run:
  "constructRegionsPath loopGeometry exampleScene (wpAt 0 0 0) (wpAt 10 0 0) None None None None
     = Inr (toPathpoint (wpAt 0 0 0)
              # replicate 19999 \<lparr>px = Num 0, py = Num 0, pelevation = Num 1\<rparr>,
            [pathError])"
proof -
  have t: "elevationType exampleScene (wpAt 10 0 0) None = GROUND"
    by (simp add: example_defs)
  have g: "constructRegionsPath loopGeometry exampleScene (wpAt 0 0 0) (wpAt 10 0 0) None None None None
    = tracePath loopGeometry exampleScene (wpAt 0 0 0) (wpAt 10 0 0) (elevatedRegions exampleScene None) None None
             GROUND"
    by (subst constructRegionsPath_general) (simp_all add: t, simp_all add: example_defs)
  note m = loop_march_start
  have u: "undoRounding loopGeometry (10, 0) (Start2d # Intersection (Suc 0) 0 # loopRefs 2 9999)
             ((0, 0) # (0, 1) # replicate 19998 (0, 1))
            = Inr ((0, 0) # (0, 1) # replicate 19998 (0, 1))"
    by (rule undoRounding_unchanged) (simp_all add: loopGeometry_def exampleGeometry_def)
  have f0: "from2dCutawayCoordinate (0, 0) (wpAt 0 0 0) (wpAt 10 0 0) = toPathpoint (wpAt 0 0 0)"
    by (simp add: from2dCutawayCoordinate_def xy_def towardsPoint_horizontal toPathpoint_def)
  have f1: "from2dCutawayCoordinate (0, 1) (wpAt 0 0 0) (wpAt 10 0 0) = \<lparr>px = Num 0, py = Num 0, pelevation = Num 1\<rparr>"
    by (simp add: from2dCutawayCoordinate_def xy_def towardsPoint_horizontal)
  have r: "(\<lparr>px = Num 0, py = Num 0, pelevation = Num 1\<rparr> # replicate 19998 \<lparr>px = Num 0, py = Num 0, pelevation = Num 1\<rparr>)
              = replicate 19999 \<lparr>px = Num 0, py = Num 0, pelevation = Num 1\<rparr>"
    using replicate_Suc[of 19998 "\<lparr>px = Num 0, py = Num 0, pelevation = Num 1\<rparr>", symmetric] by simp
  have e: "c_end2d loopConsts = (10, 0)" by (simp add: loopConsts_def)
  have w: "waypoints (loopState W R) = W" "waypointRefs (loopState W R) = R" for W R
    by (simp_all add: loopState_def)
  show ?thesis
    unfolding g tracePath_general[OF loop_cutaway, simplified] loop_consts
    by (simp add: Let_def m e w u f0 f1 r)
qed


end
